theory Spec2Isabelle
  imports
    Main
    "HOL-Library.Word"
    "HOL-Library.Char_ord"
    "HOL-Library.List_Lexorder"
    "HOL-Library.AList"
    "HOL-Library.Multiset"
begin

unbundle bit_operations_syntax

section \<open>Package alb: an http.Handler behind an AWS Application Load Balancer\<close>

text \<open>
  The package has one exported function, \<open>Handler\<close>, and one method, \<open>lambdaHandler.Run\<close>,
  which decodes the load balancer's JSON event into an \<open>http.Request\<close>, serves it with the
  wrapped handler into an \<open>httptest.ResponseRecorder\<close>, and encodes what was recorded.
  Two revisions of the file are present: \<open>src/alb.go\<close>, which rebuilds the query string by
  unescaping every value and re-encoding it with \<open>url.Values.Encode\<close>, and
  \<open>src/unnamed/part_000\<close>, which concatenates the already escaped pieces in \<open>buildURL\<close> and
  parses the result once. Both are embedded: \<open>Run\<close> is the method of \<open>part_000\<close> and
  \<open>Run_alb\<close> the method of \<open>alb.go\<close>.

  Go strings and byte slices are sequences of bytes: they are \<open>char list\<close> here (an Isabelle
  \<open>char\<close> is one byte). A Go map is an association list with distinct keys, in the order
  in which \<open>range\<close> happens to visit it; Go leaves that order open, and so every statement
  below holds for every order.
\<close>

type_synonym byte = char

definition within :: "byte \<Rightarrow> byte \<Rightarrow> byte \<Rightarrow> bool" where
  \<comment> \<open>\<open>lo <= c && c <= hi\<close> on bytes\<close>
  "within lo c hi = (lo \<le> c \<and> c \<le> hi)"

definition uint :: "byte \<Rightarrow> nat" where
  "uint c = of_char c"

definition byte :: "nat \<Rightarrow> byte" where
  \<comment> \<open>The conversion \<open>byte(x)\<close> of an unsigned integer: the low eight bits.\<close>
  "byte n = char_of n"

datatype error =
    CorruptInputError nat
    \<comment> \<open>\<open>base64.CorruptInputError\<close>: the offset of the offending input byte\<close>
  | EscapeError string
    \<comment> \<open>\<open>url.EscapeError\<close>: the malformed escape\<close>
  | InvalidHostError string
  | ErrorString string
    \<comment> \<open>an error made by \<open>errors.New\<close>\<close>
  | URLError string string error
    \<comment> \<open>\<open>*url.Error\<close>: operation, URL and the wrapped error\<close>

datatype 'a outcome =
    Return 'a
  | Panic string

section \<open>The standard library, as far as the package calls it\<close>

subsection \<open>unicode/utf8\<close>

definition RuneSelf :: nat where
  "RuneSelf = 0x80"

definition locb :: nat where
  "locb = 0x80"

definition hicb :: nat where
  "hicb = 0xBF"

definition xx :: nat where
  "xx = 0xF1"

definition first :: "byte \<Rightarrow> nat" where
  \<comment> \<open>The table \<open>first\<close>: information about the first byte of an encoding.\<close>
  "first c =
     (let n = uint c in
      if n < 0x80 then 0xF0
      else if n < 0xC2 then xx
      else if n < 0xE0 then 0x02
      else if n = 0xE0 then 0x13
      else if n < 0xED then 0x03
      else if n = 0xED then 0x23
      else if n < 0xF0 then 0x03
      else if n = 0xF0 then 0x34
      else if n < 0xF4 then 0x04
      else if n = 0xF4 then 0x44
      else xx)"

definition acceptRanges :: "nat \<Rightarrow> nat \<times> nat" where
  "acceptRanges i =
     (if i = 0 then (locb, hicb)
      else if i = 1 then (0xA0, hicb)
      else if i = 2 then (locb, 0x9F)
      else if i = 3 then (0x90, hicb)
      else if i = 4 then (locb, 0x8F)
      else (0, 0))"

fun Valid :: "byte list \<Rightarrow> bool" where
  "Valid [] = True"
| "Valid (pi # p) =
     (if uint pi < RuneSelf then Valid p
      else
        let x = first pi in
        if x = xx then False
        else
          let size = x AND 7 in
          if size > Suc (length p) then False
          else
            let accept = acceptRanges (drop_bit 4 x); c = uint (p ! 0) in
            if c < fst accept \<or> snd accept < c then False
            else if size = 2 then Valid (drop 1 p)
            else
              let c = uint (p ! 1) in
              if c < locb \<or> hicb < c then False
              else if size = 3 then Valid (drop 2 p)
              else
                let c = uint (p ! 2) in
                if c < locb \<or> hicb < c then False
                else Valid (drop 3 p))"

subsection \<open>strings\<close>

fun Join :: "string list \<Rightarrow> string \<Rightarrow> string" where
  "Join [] sep = []"
| "Join [e] sep = e"
| "Join (e # e' # elems) sep = e @ sep @ Join (e' # elems) sep"

definition HasPrefix :: "string \<Rightarrow> string \<Rightarrow> bool" where
  "HasPrefix s p = (take (length p) s = p)"

definition Cut :: "string \<Rightarrow> char \<Rightarrow> string \<times> string \<times> bool" where
  \<comment> \<open>\<open>strings.Cut\<close> with a separator of one byte: the text before and after its first
      occurrence.\<close>
  "Cut s sep =
     (if sep \<in> set s
      then (takeWhile (\<lambda>c. c \<noteq> sep) s, drop 1 (dropWhile (\<lambda>c. c \<noteq> sep) s), True)
      else (s, [], False))"

subsection \<open>encoding/base64: StdEncoding\<close>

definition encodeStd :: string where
  "encodeStd = ''ABCDEFGHIJKLMNOPQRSTUVWXYZabcdefghijklmnopqrstuvwxyz0123456789+/''"

definition encode :: "nat \<Rightarrow> byte" where
  "encode i = encodeStd ! i"

definition decodeMap :: "byte \<Rightarrow> nat option" where
  \<comment> \<open>\<open>None\<close> stands for the entry \<open>0xff\<close> of a byte outside the alphabet.\<close>
  "decodeMap c = map_of (zip encodeStd [0..<64]) c"

definition padChar :: byte where
  "padChar = CHR ''=''"

fun EncodeToString :: "byte list \<Rightarrow> string" where
  "EncodeToString [] = []"
| "EncodeToString [a] =
     (let val = push_bit 16 (uint a)
      in [encode (drop_bit 18 val AND 0x3F), encode (drop_bit 12 val AND 0x3F), padChar, padChar])"
| "EncodeToString [a, b] =
     (let val = push_bit 16 (uint a) OR push_bit 8 (uint b)
      in [encode (drop_bit 18 val AND 0x3F), encode (drop_bit 12 val AND 0x3F),
          encode (drop_bit 6 val AND 0x3F), padChar])"
| "EncodeToString (a # b # c # src) =
     (let val = push_bit 16 (uint a) OR push_bit 8 (uint b) OR uint c
      in [encode (drop_bit 18 val AND 0x3F), encode (drop_bit 12 val AND 0x3F),
          encode (drop_bit 6 val AND 0x3F), encode (val AND 0x3F)] @ EncodeToString src)"

definition isNewline :: "byte \<Rightarrow> bool" where
  "isNewline c = (c = CHR 0x0A \<or> c = CHR 0x0D)"

fun skipNewlines :: "string \<Rightarrow> nat \<Rightarrow> string \<times> nat" where
  "skipNewlines [] si = ([], si)"
| "skipNewlines (c # src) si = (if isNewline c then skipNewlines src (Suc si) else (c # src, si))"

text \<open>
  \<open>decodeQuantum\<close> reads up to four alphabet bytes into \<open>dbuf\<close>. The scan either returns
  at once (\<open>Early\<close>: the end of the input, or a corrupt byte) or leaves the loop with
  \<open>dlen\<close> sextets (\<open>Break\<close>), possibly with the error of trailing garbage after the
  padding. The input still to be read and the offset \<open>si\<close> travel together.
\<close>

datatype scan =
    Early string nat "error option"
  | Break "nat list" nat string nat "error option"

definition finishPadding :: "nat list \<Rightarrow> string \<Rightarrow> nat \<Rightarrow> scan" where
  "finishPadding dbuf src si =
     (case skipNewlines src si of
        (rest, si') \<Rightarrow>
          Break dbuf (length dbuf) rest si'
            (if rest \<noteq> [] then Some (CorruptInputError si') else None))"

fun scanQuantum :: "nat list \<Rightarrow> string \<Rightarrow> nat \<Rightarrow> scan" where
  "scanQuantum dbuf [] si =
     (if length dbuf = 4 then Break dbuf 4 [] si None
      else if length dbuf = 0 then Early [] si None
      else Early [] si (Some (CorruptInputError (si - length dbuf))))"
| "scanQuantum dbuf (c # src) si =
     (if length dbuf = 4 then Break dbuf 4 (c # src) si None
      else case decodeMap c of
        Some out \<Rightarrow> scanQuantum (dbuf @ [out]) src (Suc si)
      | None \<Rightarrow>
          if isNewline c then scanQuantum dbuf src (Suc si)
          else if c \<noteq> padChar then Early src (Suc si) (Some (CorruptInputError si))
          else if length dbuf < 2 then Early src (Suc si) (Some (CorruptInputError si))
          else if length dbuf = 2 then
            (case skipNewlines src (Suc si) of
               ([], si') \<Rightarrow> Early [] si' (Some (CorruptInputError si'))
             | (c' # src', si') \<Rightarrow>
                 if c' \<noteq> padChar
                 then Early (c' # src') si' (Some (CorruptInputError (si' - 1)))
                 else finishPadding dbuf src' (Suc si'))
          else finishPadding dbuf src (Suc si))"

fun scan_rest :: "scan \<Rightarrow> string" where
  "scan_rest (Early rest _ _) = rest"
| "scan_rest (Break _ _ rest _ _) = rest"

fun scan_err :: "scan \<Rightarrow> error option" where
  "scan_err (Early _ _ err) = err"
| "scan_err (Break _ _ _ _ err) = err"

definition sextet :: "nat list \<Rightarrow> nat \<Rightarrow> nat" where
  \<comment> \<open>\<open>dbuf[j]\<close> of the array \<open>[4]byte\<close>, whose unwritten entries are zero.\<close>
  "sextet dbuf j = (if j < length dbuf then dbuf ! j else 0)"

definition convert :: "nat \<Rightarrow> nat \<Rightarrow> nat \<Rightarrow> nat \<Rightarrow> byte list" where
  \<comment> \<open>Four sextets into three bytes.\<close>
  "convert d0 d1 d2 d3 =
     (let val = push_bit 18 d0 OR push_bit 12 d1 OR push_bit 6 d2 OR d3
      in [byte (drop_bit 16 val), byte (drop_bit 8 val), byte val])"

definition decodeQuantum :: "string \<Rightarrow> nat \<Rightarrow> string \<times> nat \<times> byte list \<times> error option" where
  "decodeQuantum src si =
     (case scanQuantum [] src si of
        Early rest nsi err \<Rightarrow> (rest, nsi, [], err)
      | Break dbuf dlen rest nsi err \<Rightarrow>
          (rest, nsi,
           take (dlen - 1) (convert (sextet dbuf 0) (sextet dbuf 1) (sextet dbuf 2) (sextet dbuf 3)),
           err))"

lemma skipNewlines_length: "length (fst (skipNewlines src si)) \<le> length src"
  by (induction src arbitrary: si) (auto intro: le_SucI)

lemma finishPadding_length: "length (scan_rest (finishPadding dbuf src si)) \<le> length src"
  using skipNewlines_length [of src si]
  by (cases "skipNewlines src si") (simp add: finishPadding_def)

lemma scanQuantum_length: "length (scan_rest (scanQuantum dbuf src si)) \<le> length src"
proof (induction dbuf src si rule: scanQuantum.induct)
  case (1 dbuf si)
  then show ?case by simp
next
  case (2 dbuf c src si)
  show ?case
  proof (cases "length dbuf = 4")
    case True
    then show ?thesis by simp
  next
    case False
    show ?thesis
    proof (cases "decodeMap c")
      case (Some out)
      with False 2(2) show ?thesis by (simp add: le_SucI)
    next
      case None
      show ?thesis
      proof (cases "isNewline c")
        case True
        with False None 2(1) show ?thesis by (simp add: le_SucI)
      next
        case nl: False
        have a: "length (scan_rest (finishPadding dbuf src (Suc si))) \<le> Suc (length src)"
          using finishPadding_length [of dbuf src "Suc si"] by simp
        have b: "length (scan_rest (finishPadding dbuf src' n)) \<le> Suc (length src)"
          if "skipNewlines src (Suc si) = (c' # src', si')" for c' src' si' n
        proof -
          have "length (c' # src') \<le> length src"
            using skipNewlines_length [of src "Suc si"] that by simp
          moreover have "length (scan_rest (finishPadding dbuf src' n)) \<le> length src'"
            by (rule finishPadding_length)
          ultimately show ?thesis by simp
        qed
        have c: "length (c' # src') \<le> Suc (length src)"
          if "skipNewlines src (Suc si) = (c' # src', si')" for c' src' si'
          using skipNewlines_length [of src "Suc si"] that by simp
        show ?thesis
          using False None nl a b c
          by (simp split: prod.splits list.splits)
      qed
    qed
  qed
qed

lemma decodeQuantum_shorter:
  assumes "src \<noteq> []"
  shows "length (fst (decodeQuantum src si)) < length src"
proof -
  obtain c cs where src: "src = c # cs" using assms by (cases src) auto
  have a: "length (scan_rest (scanQuantum [] src si)) < length src"
  proof (cases "decodeMap c")
    case (Some out)
    then show ?thesis
      using scanQuantum_length [of "[out]" cs "Suc si"] by (simp add: src)
  next
    case None
    then show ?thesis
      using scanQuantum_length [of "[]" cs "Suc si"] by (simp add: src)
  qed
  show ?thesis
    using a by (cases "scanQuantum [] src si") (simp_all add: decodeQuantum_def Let_def)
qed

text \<open>
  \<open>Decode\<close> is the loop \<open>for si < len(src)\<close> of \<open>Encoding.Decode\<close>, one quantum a turn; the
  unrolled fast paths of the library for eight and four well-formed bytes compute what
  \<open>decodeQuantum\<close> computes on them. Every quantum consumes input, so the loop ends.
\<close>

function Decode :: "string \<Rightarrow> nat \<Rightarrow> error + byte list" where
  "Decode src si =
     (if src = [] then Inr []
      else case decodeQuantum src si of
        (rest, nsi, out, Some err) \<Rightarrow> Inl err
      | (rest, nsi, out, None) \<Rightarrow>
          (case Decode rest nsi of Inl err \<Rightarrow> Inl err | Inr bs \<Rightarrow> Inr (out @ bs)))"
  by pat_completeness auto
termination
  apply (relation "measure (\<lambda>(src, si). length src)")
   apply simp
  apply simp
  using decodeQuantum_shorter
  apply (metis fst_conv)
  done

declare Decode.simps [simp del]

definition DecodeString :: "string \<Rightarrow> error + byte list" where
  "DecodeString s = Decode s 0"

subsection \<open>net/url\<close>

datatype encoding =
    encodePath
  | encodePathSegment
  | encodeHost
  | encodeZone
  | encodeUserPassword
  | encodeQueryComponent
  | encodeFragment

definition isAlpha :: "byte \<Rightarrow> bool" where
  "isAlpha c = (within (CHR ''a'') c (CHR ''z'') \<or> within (CHR ''A'') c (CHR ''Z''))"

definition isDigit :: "byte \<Rightarrow> bool" where
  "isDigit c = (within (CHR ''0'') c (CHR ''9''))"

definition ishex :: "byte \<Rightarrow> bool" where
  "ishex c =
     (within (CHR ''0'') c (CHR ''9'') \<or> within (CHR ''a'') c (CHR ''f'')
      \<or> within (CHR ''A'') c (CHR ''F''))"

definition unhex :: "byte \<Rightarrow> nat" where
  "unhex c =
     (if within (CHR ''0'') c (CHR ''9'') then uint c - uint (CHR ''0'')
      else if within (CHR ''a'') c (CHR ''f'') then uint c - uint (CHR ''a'') + 10
      else if within (CHR ''A'') c (CHR ''F'') then uint c - uint (CHR ''A'') + 10
      else 0)"

definition upperhex :: string where
  "upperhex = ''0123456789ABCDEF''"

definition shouldEscape :: "byte \<Rightarrow> encoding \<Rightarrow> bool" where
  "shouldEscape c mode =
     (if isAlpha c \<or> isDigit c then False
      else if (mode = encodeHost \<or> mode = encodeZone)
              \<and> c \<in> set [CHR ''!'', CHR ''$'', CHR ''&'', CHR 0x27, CHR ''('', CHR '')'', CHR ''*'',
                           CHR ''+'', CHR '','', CHR '';'', CHR ''='', CHR '':'', CHR ''['',
                           CHR '']'', CHR ''<'', CHR ''>'', CHR 0x22]
      then False
      else if c \<in> set ''-_.~'' then False
      else if c \<in> set ''$&+,/:;=?@'' then
        (case mode of
           encodePath \<Rightarrow> c = CHR ''?''
         | encodePathSegment \<Rightarrow> c = CHR ''/'' \<or> c = CHR '';'' \<or> c = CHR '','' \<or> c = CHR ''?''
         | encodeUserPassword \<Rightarrow> c = CHR ''@'' \<or> c = CHR ''/'' \<or> c = CHR ''?'' \<or> c = CHR '':''
         | encodeQueryComponent \<Rightarrow> True
         | encodeFragment \<Rightarrow> False
         | _ \<Rightarrow> True)
      else if mode = encodeFragment \<and> c \<in> set ''!()*'' then False
      else True)"

text \<open>
  \<open>unescape\<close> makes one pass to validate and a second to build the result; the error is
  that of the leftmost malformed escape. The single pass below validates each escape
  where it builds it, which returns the same error or the same string.
\<close>

fun unescape :: "string \<Rightarrow> encoding \<Rightarrow> error + string" where
  "unescape [] mode = Inr []"
| "unescape (c # s) mode =
     (if c = CHR ''%'' then
        (case s of
           h1 # h2 # s' \<Rightarrow>
             if \<not> ishex h1 \<or> \<not> ishex h2 then Inl (EscapeError (take 3 (c # s)))
             else if mode = encodeHost \<and> unhex h1 < 8 \<and> [c, h1, h2] \<noteq> ''%25''
             then Inl (EscapeError [c, h1, h2])
             else if mode = encodeZone \<and> [c, h1, h2] \<noteq> ''%25''
                     \<and> byte (push_bit 4 (unhex h1) OR unhex h2) \<noteq> CHR '' ''
                     \<and> shouldEscape (byte (push_bit 4 (unhex h1) OR unhex h2)) encodeHost
             then Inl (EscapeError [c, h1, h2])
             else
               (case unescape s' mode of
                  Inl err \<Rightarrow> Inl err
                | Inr t \<Rightarrow> Inr (byte (push_bit 4 (unhex h1) OR unhex h2) # t))
         | _ \<Rightarrow> Inl (EscapeError (take 3 (c # s))))
      else if c = CHR ''+'' then
        (case unescape s mode of
           Inl err \<Rightarrow> Inl err
         | Inr t \<Rightarrow> Inr ((if mode = encodeQueryComponent then CHR '' '' else CHR ''+'') # t))
      else if (mode = encodeHost \<or> mode = encodeZone) \<and> uint c < 0x80 \<and> shouldEscape c encodeHost
      then Inl (InvalidHostError [c])
      else
        (case unescape s mode of
           Inl err \<Rightarrow> Inl err
         | Inr t \<Rightarrow> Inr (c # t)))"

definition QueryUnescape :: "string \<Rightarrow> error + string" where
  "QueryUnescape s = unescape s encodeQueryComponent"

fun escape :: "string \<Rightarrow> encoding \<Rightarrow> string" where
  "escape [] mode = []"
| "escape (c # s) mode =
     (if c = CHR '' '' \<and> mode = encodeQueryComponent then CHR ''+'' # escape s mode
      else if shouldEscape c mode
      then CHR ''%'' # upperhex ! (drop_bit 4 (uint c)) # upperhex ! (uint c AND 15) # escape s mode
      else c # escape s mode)"

definition QueryEscape :: "string \<Rightarrow> string" where
  "QueryEscape s = escape s encodeQueryComponent"

text \<open>
  \<open>url.Values\<close> is a map from a name to its values. \<open>Encode\<close> visits the names in sorted
  order (\<open>sort.Strings\<close>: bytewise), which is the lexicographic order of \<open>char list\<close>.
\<close>

type_synonym Values = "(string \<times> string list) list"

definition Set :: "Values \<Rightarrow> string \<Rightarrow> string \<Rightarrow> Values" where
  "Set v key val = AList.update key [val] v"

fun encodeValues :: "string \<Rightarrow> string \<Rightarrow> string list \<Rightarrow> string" where
  \<comment> \<open>The inner loop of \<open>Encode\<close> over the values of one name, appending to \<open>buf\<close>.\<close>
  "encodeValues buf keyEscaped [] = buf"
| "encodeValues buf keyEscaped (v # vs) =
     encodeValues
       ((if length buf > 0 then buf @ ''&'' else buf) @ keyEscaped @ ''='' @ QueryEscape v)
       keyEscaped vs"

definition Encode :: "Values \<Rightarrow> string" where
  "Encode v =
     (if length v = 0 then []
      else foldl (\<lambda>buf k. encodeValues buf (QueryEscape k)
                    (case map_of v k of None \<Rightarrow> [] | Some vs \<Rightarrow> vs)) []
             (sort (map fst v)))"

text \<open>
  \<open>Userinfo\<close> and the fields of \<open>URL\<close>. A nil \<open>User\<close> is \<open>None\<close>.
\<close>

record Userinfo =
  username :: string
  password :: string
  passwordSet :: bool

record URL =
  Scheme :: string
  Opaque :: string
  User :: "Userinfo option"
  Host :: string
  Path :: string
  RawPath :: string
  OmitHost :: bool
  ForceQuery :: bool
  RawQuery :: string
  Fragment :: string
  RawFragment :: string

definition emptyURL :: URL where
  \<comment> \<open>\<open>new(URL)\<close>: every field has its zero value.\<close>
  "emptyURL =
     \<lparr>Scheme = [], Opaque = [], User = None, Host = [], Path = [], RawPath = [],
      OmitHost = False, ForceQuery = False, RawQuery = [], Fragment = [], RawFragment = []\<rparr>"

definition stringContainsCTLByte :: "string \<Rightarrow> bool" where
  "stringContainsCTLByte s = list_ex (\<lambda>b. b < CHR '' '' \<or> b = CHR 0x7F) s"

fun getSchemeFrom :: "string \<Rightarrow> nat \<Rightarrow> string \<Rightarrow> error + string \<times> string" where
  \<comment> \<open>The loop of \<open>getScheme\<close> at index \<open>i\<close>, with the bytes from \<open>i\<close> on still to be seen.\<close>
  "getSchemeFrom rawURL i [] = Inr ([], rawURL)"
| "getSchemeFrom rawURL i (c # cs) =
     (if isAlpha c then getSchemeFrom rawURL (Suc i) cs
      else if isDigit c \<or> c = CHR ''+'' \<or> c = CHR ''-'' \<or> c = CHR ''.'' then
        (if i = 0 then Inr ([], rawURL) else getSchemeFrom rawURL (Suc i) cs)
      else if c = CHR '':'' then
        (if i = 0 then Inl (ErrorString ''missing protocol scheme'')
         else Inr (take i rawURL, drop (Suc i) rawURL))
      else Inr ([], rawURL))"

definition getScheme :: "string \<Rightarrow> error + string \<times> string" where
  "getScheme rawURL = getSchemeFrom rawURL 0 rawURL"

definition ToLower :: "string \<Rightarrow> string" where
  \<comment> \<open>\<open>strings.ToLower\<close> on the bytes a scheme can have, all of them ASCII.\<close>
  "ToLower s = map (\<lambda>c. if within (CHR ''A'') c (CHR ''Z'') then byte (uint c + 32) else c) s"

definition setPath :: "URL \<Rightarrow> string \<Rightarrow> error + URL" where
  "setPath u p =
     (case unescape p encodePath of
        Inl err \<Rightarrow> Inl err
      | Inr path \<Rightarrow>
          Inr (u\<lparr>Path := path, RawPath := (if p = escape path encodePath then [] else p)\<rparr>))"

definition setFragment :: "URL \<Rightarrow> string \<Rightarrow> error + URL" where
  "setFragment u f =
     (case unescape f encodeFragment of
        Inl err \<Rightarrow> Inl err
      | Inr frag \<Rightarrow>
          Inr (u\<lparr>Fragment := frag,
                 RawFragment := (if f = escape frag encodeFragment then [] else f)\<rparr>))"

text \<open>
  The parser of the authority component (user information, host, port, IP literals)
  is the one part of \<open>net/url\<close> that is not written out: \<open>parse\<close> takes it as the
  argument \<open>parseAuthority\<close>, and everything below holds whatever it returns. The
  package never calls \<open>parse\<close> with \<open>viaRequest\<close> set.
\<close>

type_synonym authority_parser = "string \<Rightarrow> error + Userinfo option \<times> string"

definition parse :: "authority_parser \<Rightarrow> string \<Rightarrow> error + URL" where
  "parse parseAuthority rawURL =
     (if stringContainsCTLByte rawURL
      then Inl (ErrorString ''net/url: invalid control character in URL'')
      else if rawURL = ''*'' then Inr (emptyURL\<lparr>Path := ''*''\<rparr>)
      else case getScheme rawURL of
        Inl err \<Rightarrow> Inl err
      | Inr (scheme, rest0) \<Rightarrow>
          let url = emptyURL\<lparr>Scheme := ToLower scheme\<rparr>;
              (rest, url) =
                (if rest0 \<noteq> [] \<and> last rest0 = CHR ''?'' \<and> count_list rest0 (CHR ''?'') = 1
                 then (butlast rest0, url\<lparr>ForceQuery := True\<rparr>)
                 else case Cut rest0 (CHR ''?'') of
                   (before, after, _) \<Rightarrow> (before, url\<lparr>RawQuery := after\<rparr>))
          in
          if \<not> HasPrefix rest ''/'' \<and> Scheme url \<noteq> [] then Inr (url\<lparr>Opaque := rest\<rparr>)
          else if \<not> HasPrefix rest ''/'' \<and> CHR '':'' \<in> set (fst (Cut rest (CHR ''/'')))
          then Inl (ErrorString ''first path segment in URL cannot contain colon'')
          else if (Scheme url \<noteq> [] \<or> \<not> HasPrefix rest ''///'') \<and> HasPrefix rest ''//'' then
            (case Cut (drop 2 rest) (CHR ''/'') of
               (authority, after, found) \<Rightarrow>
                 (case parseAuthority authority of
                    Inl err \<Rightarrow> Inl err
                  | Inr (user, host) \<Rightarrow>
                      setPath (url\<lparr>User := user, Host := host\<rparr>)
                        (if found then CHR ''/'' # after else [])))
          else if Scheme url \<noteq> [] \<and> HasPrefix rest ''/''
          then setPath (url\<lparr>OmitHost := True\<rparr>) rest
          else setPath url rest)"

definition Parse :: "authority_parser \<Rightarrow> string \<Rightarrow> error + URL" where
  "Parse parseAuthority rawURL =
     (case Cut rawURL (CHR ''#'') of
        (u, frag, _) \<Rightarrow>
          (case parse parseAuthority u of
             Inl err \<Rightarrow> Inl (URLError ''parse'' u err)
           | Inr url \<Rightarrow>
               if frag = [] then Inr url
               else case setFragment url frag of
                 Inl err \<Rightarrow> Inl (URLError ''parse'' rawURL err)
               | Inr url' \<Rightarrow> Inr url'))"

subsection \<open>net/textproto and net/http\<close>

definition validHeaderFieldByte :: "byte \<Rightarrow> bool" where
  \<comment> \<open>The token bytes of a header field name.\<close>
  "validHeaderFieldByte c =
     (isAlpha c \<or> isDigit c
      \<or> c \<in> set [CHR ''!'', CHR ''#'', CHR ''$'', CHR ''%'', CHR ''&'', CHR 0x27, CHR ''*'',
                  CHR ''+'', CHR ''-'', CHR ''.'', CHR ''^'', CHR ''_'', CHR 0x60, CHR ''|'',
                  CHR ''~''])"

fun canonical :: "bool \<Rightarrow> string \<Rightarrow> string" where
  \<comment> \<open>Upper case for the first letter and for a letter after a dash, lower case elsewhere.\<close>
  "canonical upper [] = []"
| "canonical upper (c # a) =
     (let c' = (if upper \<and> within (CHR ''a'') c (CHR ''z'') then byte (uint c - 32)
                else if \<not> upper \<and> within (CHR ''A'') c (CHR ''Z'') then byte (uint c + 32)
                else c)
      in c' # canonical (c' = CHR ''-'') a)"

definition CanonicalMIMEHeaderKey :: "string \<Rightarrow> string" where
  \<comment> \<open>A key with a byte that is not a token byte is returned as it is.\<close>
  "CanonicalMIMEHeaderKey s = (if list_all validHeaderFieldByte s then canonical True s else s)"

type_synonym Header = "(string \<times> string list) list"

definition Header_Set :: "Header \<Rightarrow> string \<Rightarrow> string \<Rightarrow> Header" where
  "Header_Set h key val = AList.update (CanonicalMIMEHeaderKey key) [val] h"

definition Header_Get :: "Header \<Rightarrow> string \<Rightarrow> string" where
  "Header_Get h key =
     (case map_of h (CanonicalMIMEHeaderKey key) of
        None \<Rightarrow> []
      | Some v \<Rightarrow> (if length v = 0 then [] else v ! 0))"

text \<open>
  The fields of \<open>http.Request\<close> that \<open>Run\<close> sets. The body is the bytes its reader
  yields; \<open>r_ctx\<close> is the context attached by \<open>WithContext\<close>, which the Lambda runtime
  supplies and which is never nil.
\<close>

record 'ctx Request =
  r_Method :: string
  r_URL :: URL
  r_Proto :: string
  r_ProtoMajor :: int
  r_ProtoMinor :: int
  r_Header :: Header
  r_Body :: "byte list"
  r_ContentLength :: int
  r_Host :: string
  r_ctx :: 'ctx

text \<open>
  What \<open>Run\<close> reads of the \<open>httptest.ResponseRecorder\<close> once \<open>ServeHTTP\<close> has returned:
  status code, status line and headers of \<open>recorder.Result()\<close>, and the bytes of
  \<open>recorder.Body\<close>.
\<close>

record ResponseRecorder =
  res_StatusCode :: int
  res_Status :: string
  res_Header :: Header
  rec_Body :: "byte list"

text \<open>
  A handler is what \<open>ServeHTTP\<close> does with a request: it returns, having written the
  response into the recorder, or it panics.
\<close>

type_synonym 'ctx Handler = "'ctx Request \<Rightarrow> ResponseRecorder outcome"

section \<open>The package\<close>

record request =
  req_Method :: string
  req_Path :: string
  req_Query :: "(string \<times> string) list"
  req_Headers :: "(string \<times> string) list"
  req_Body :: string
  req_BodyEncoded :: bool

record response =
  StatusCode :: int
  Status :: string
  Headers :: "(string \<times> string) list"
  Body :: string
  BodyEncoded :: bool

text \<open>
  \<open>Run\<close> returns a pointer to a response and an error, one of them nil: \<open>Inl err\<close> is
  \<open>(nil, err)\<close> and \<open>Inr out\<close> is \<open>(out, nil)\<close>. With the result comes the list of requests
  that were handed to \<open>ServeHTTP\<close> during the call, so that a call of the handler is
  visible in the result.
\<close>

type_synonym 'ctx run = "(error + response) outcome \<times> 'ctx Request list"

fun writePairs :: "string \<Rightarrow> nat \<Rightarrow> (string \<times> string) list \<Rightarrow> string" where
  \<comment> \<open>The loop of \<open>buildURL\<close> over the query map, with the builder \<open>b\<close> and the counter \<open>i\<close>.\<close>
  "writePairs b i [] = b"
| "writePairs b i ((k, v) # query) =
     writePairs ((if i \<noteq> 0 then b @ ''&'' else b) @ k @ ''='' @ v) (Suc i) query"

definition buildURL :: "authority_parser \<Rightarrow> string \<Rightarrow> (string \<times> string) list \<Rightarrow> error + URL" where
  "buildURL parseAuthority path query =
     (if length query = 0 then Parse parseAuthority path
      else Parse parseAuthority (writePairs (path @ ''?'') 0 query))"

definition setHeaders :: "(string \<times> string) list \<Rightarrow> Header" where
  \<comment> \<open>\<open>for k, v := range req.Headers { headers.Set(k, v) }\<close>\<close>
  "setHeaders hs = foldl (\<lambda>headers (k, v). Header_Set headers k v) [] hs"

definition joinHeaders :: "Header \<Rightarrow> (string \<times> string) list" where
  \<comment> \<open>\<open>for k, vv := range res.Header { out.Headers[k] = strings.Join(vv, ",") }\<close>\<close>
  "joinHeaders h = foldl (\<lambda>m (k, vv). AList.update k (Join vv '','') m) [] h"

definition serve :: "'ctx Handler \<Rightarrow> 'ctx Request \<Rightarrow> 'ctx run" where
  \<comment> \<open>From \<open>httptest.NewRecorder()\<close> to the end of \<open>Run\<close>, the same in both revisions.\<close>
  "serve h r =
     (case h r of
        Panic v \<Rightarrow> (Panic v, [r])
      | Return recorder \<Rightarrow>
          let out = \<lparr>StatusCode = res_StatusCode recorder, Status = res_Status recorder,
                      Headers = joinHeaders (res_Header recorder), Body = [], BodyEncoded = False\<rparr>;
              b = rec_Body recorder
          in (Return (Inr (if Valid b then out\<lparr>Body := b\<rparr>
                           else out\<lparr>Body := EncodeToString b, BodyEncoded := True\<rparr>)), [r]))"

definition newRequest :: "'ctx \<Rightarrow> request \<Rightarrow> URL \<Rightarrow> 'ctx Request" where
  \<comment> \<open>The literal \<open>&http.Request{...}\<close> of \<open>Run\<close> and \<open>r.WithContext(ctx)\<close>.\<close>
  "newRequest ctx req u =
     (let headers = setHeaders (req_Headers req)
      in \<lparr>r_Method = req_Method req, r_URL = u, r_Proto = ''HTTP/1.1'', r_ProtoMajor = 1,
          r_ProtoMinor = 1, r_Header = headers, r_Body = [], r_ContentLength = 0,
          r_Host = Header_Get headers ''Host'', r_ctx = ctx\<rparr>)"

definition decodeBody :: "'ctx Handler \<Rightarrow> 'ctx Request \<Rightarrow> request \<Rightarrow> 'ctx run" where
  \<comment> \<open>The \<open>switch\<close> on \<open>req.BodyEncoded\<close> and what follows it.\<close>
  "decodeBody h r req =
     (if req_BodyEncoded req then
        (case DecodeString (req_Body req) of
           Inl err \<Rightarrow> (Return (Inl err), [])
         | Inr b \<Rightarrow> serve h (r\<lparr>r_Body := b, r_ContentLength := int (length b)\<rparr>))
      else serve h (r\<lparr>r_Body := req_Body req, r_ContentLength := int (length (req_Body req))\<rparr>))"

definition Run :: "authority_parser \<Rightarrow> 'ctx Handler \<Rightarrow> 'ctx \<Rightarrow> request \<Rightarrow> 'ctx run" where
  \<comment> \<open>\<open>lambdaHandler.Run\<close> of \<open>src/unnamed/part_000\<close>\<close>
  "Run parseAuthority h ctx req =
     (case buildURL parseAuthority (req_Path req) (req_Query req) of
        Inl err \<Rightarrow> (Return (Inl err), [])
      | Inr u \<Rightarrow> decodeBody h (newRequest ctx req u) req)"

fun queryValues :: "Values \<Rightarrow> (string \<times> string) list \<Rightarrow> error + Values" where
  \<comment> \<open>The loop of \<open>src/alb.go\<close> over \<open>req.Query\<close>: unescape each value, or stop at the first
      that is malformed.\<close>
  "queryValues vals [] = Inr vals"
| "queryValues vals ((k, v) # query) =
     (case QueryUnescape v of
        Inl err \<Rightarrow> Inl err
      | Inr v2 \<Rightarrow> queryValues (Set vals k v2) query)"

definition rebuildURL :: "string \<Rightarrow> (string \<times> string) list \<Rightarrow> error + URL" where
  \<comment> \<open>The first lines of \<open>Run\<close> in \<open>src/alb.go\<close>: the URL from the path and the re-encoded
      query.\<close>
  "rebuildURL path query =
     (let u = emptyURL\<lparr>Path := path\<rparr> in
      if length query > 0 then
        (case queryValues [] query of
           Inl err \<Rightarrow> Inl err
         | Inr vals \<Rightarrow> Inr (u\<lparr>RawQuery := Encode vals\<rparr>))
      else Inr u)"

definition Run_alb :: "'ctx Handler \<Rightarrow> 'ctx \<Rightarrow> request \<Rightarrow> 'ctx run" where
  \<comment> \<open>\<open>lambdaHandler.Run\<close> of \<open>src/alb.go\<close>\<close>
  "Run_alb h ctx req =
     (case rebuildURL (req_Path req) (req_Query req) of
        Inl err \<Rightarrow> (Return (Inl err), [])
      | Inr u \<Rightarrow> decodeBody h (newRequest ctx req u) req)"

text \<open>
  \<open>Handler\<close> takes an interface value, which may be nil: \<open>None\<close>. It returns the method
  value \<open>hh.Run\<close> or panics; it hands no request to the handler.
\<close>

definition Handler ::
  "authority_parser \<Rightarrow> 'ctx Handler option
   \<Rightarrow> ('ctx \<Rightarrow> request \<Rightarrow> 'ctx run) outcome \<times> 'ctx Request list" where
  \<comment> \<open>\<open>Handler\<close> of \<open>src/unnamed/part_000\<close>\<close>
  "Handler parseAuthority h =
     (case h of
        None \<Rightarrow> (Panic ''Wrap called with nil handler'', [])
      | Some handler \<Rightarrow> (Return (Run parseAuthority handler), []))"

definition Handler_alb ::
  "'ctx Handler option \<Rightarrow> ('ctx \<Rightarrow> request \<Rightarrow> 'ctx run) outcome \<times> 'ctx Request list" where
  \<comment> \<open>\<open>Handler\<close> of \<open>src/alb.go\<close>\<close>
  "Handler_alb h =
     (case h of
        None \<Rightarrow> (Panic ''Wrap called with nil handler'', [])
      | Some handler \<Rightarrow> (Return (Run_alb handler), []))"

section \<open>Notions of the specification\<close>

text \<open>
  A string is correctly percent-escaped when every \<open>%\<close> is followed by two hexadecimal
  digits. A plain path begins with one slash and has no escape, no \<open>?\<close>, no \<open>#\<close> and no
  control byte. \<open>afterQuestion\<close> is the text after the first \<open>?\<close> of a string.
\<close>

fun wellEscaped :: "string \<Rightarrow> bool" where
  "wellEscaped [] = True"
| "wellEscaped (c # s) =
     (if c = CHR ''%''
      then (case s of h1 # h2 # s' \<Rightarrow> ishex h1 \<and> ishex h2 \<and> wellEscaped s' | _ \<Rightarrow> False)
      else wellEscaped s)"

definition plainPath :: "string \<Rightarrow> bool" where
  "plainPath p =
     (HasPrefix p ''/'' \<and> \<not> HasPrefix p ''//'' \<and> \<not> stringContainsCTLByte p
      \<and> CHR ''%'' \<notin> set p \<and> CHR ''?'' \<notin> set p \<and> CHR ''#'' \<notin> set p)"

definition afterQuestion :: "string \<Rightarrow> string" where
  "afterQuestion s = drop 1 (dropWhile (\<lambda>c. c \<noteq> CHR ''?'') s)"

definition isSchemeByte :: "byte \<Rightarrow> bool" where
  "isSchemeByte c = (isAlpha c \<or> isDigit c \<or> c = CHR ''+'' \<or> c = CHR ''-'' \<or> c = CHR ''.'')"

text \<open>
  A query byte is one that may stand in an escaped query component: an unreserved byte,
  \<open>+\<close> or \<open>%\<close>. An escaped component is correctly percent-escaped and made of query bytes;
  an unreserved name has no escape at all. The name=value pairs of a raw query are its
  pieces between \<open>&\<close>, empty pieces dropped, and its decoded pairs are those pieces cut at
  the first \<open>=\<close> with both sides unescaped, as \<open>url.ParseQuery\<close> reads them.
  \<open>canonicalPair\<close> is the pair that \<open>Values.Encode\<close> writes for a name and the unescaped
  value.
\<close>

definition queryByte :: "byte \<Rightarrow> bool" where
  "queryByte c = (\<not> shouldEscape c encodeQueryComponent \<or> c = CHR ''+'' \<or> c = CHR ''%'')"

definition escapedComponent :: "string \<Rightarrow> bool" where
  "escapedComponent s = (wellEscaped s \<and> list_all queryByte s)"

definition unreservedName :: "string \<Rightarrow> bool" where
  "unreservedName s = list_all (\<lambda>c. \<not> shouldEscape c encodeQueryComponent) s"

definition noDelimiter :: "string \<Rightarrow> bool" where
  "noDelimiter s = (CHR ''&'' \<notin> set s \<and> CHR ''#'' \<notin> set s)"

fun splitAmp :: "string \<Rightarrow> string \<Rightarrow> string list" where
  "splitAmp cur [] = (if cur = [] then [] else [cur])"
| "splitAmp cur (c # s) =
     (if c = CHR ''&'' then (if cur = [] then splitAmp [] s else cur # splitAmp [] s)
      else splitAmp (cur @ [c]) s)"

definition queryPairs :: "string \<Rightarrow> string list" where
  "queryPairs raw = splitAmp [] raw"

definition pair :: "string \<times> string \<Rightarrow> string" where
  "pair kv = fst kv @ ''='' @ snd kv"


definition unescaped :: "string \<Rightarrow> string" where
  "unescaped v = (case QueryUnescape v of Inr t \<Rightarrow> t | Inl _ \<Rightarrow> [])"

definition canonicalPair :: "string \<times> string \<Rightarrow> string" where
  "canonicalPair kv = pair (QueryEscape (fst kv), QueryEscape (unescaped (snd kv)))"

section \<open>Examples\<close>

text \<open>
  The values used where a statement is evaluated on a concrete event. None of the
  example paths has an authority component, so the stand-in for its parser is never
  called.
\<close>

definition rejectAuthority :: authority_parser where
  "rejectAuthority authority = Inl (ErrorString ''authority'')"

definition fixedHandler :: "ResponseRecorder \<Rightarrow> unit Handler" where
  \<comment> \<open>A handler that writes the same response whatever the request.\<close>
  "fixedHandler recorder = (\<lambda>r. Return recorder)"

definition helloBody :: "byte list" where
  "helloBody = ''Hello''"

definition helloHeader :: Header where
  "helloHeader = [(''Content-Type'', [''text/html'', ''charset=utf-8''])]"

definition helloRecorder :: ResponseRecorder where
  \<comment> \<open>Status 200 and the body \<open>Hello\<close>.\<close>
  "helloRecorder =
     \<lparr>res_StatusCode = 200, res_Status = ''200 OK'', res_Header = helloHeader,
      rec_Body = helloBody\<rparr>"

definition binaryBody :: "byte list" where
  \<comment> \<open>Bytes that are not UTF-8: \<open>FF FE 00 01\<close>.\<close>
  "binaryBody = [CHR 0xFF, CHR 0xFE, CHR 0x00, CHR 0x01]"

definition binaryRecorder :: ResponseRecorder where
  "binaryRecorder =
     \<lparr>res_StatusCode = 200, res_Status = ''200 OK'', res_Header = [],
      rec_Body = binaryBody\<rparr>"

definition helloRequest :: request where
  "helloRequest =
     \<lparr>req_Method = ''GET'', req_Path = ''/hello'', req_Query = [], req_Headers = [],
      req_Body = [], req_BodyEncoded = False\<rparr>"

definition helloResponse :: response where
  "helloResponse =
     \<lparr>StatusCode = 200, Status = ''200 OK'',
      Headers = [(''Content-Type'', ''text/html,charset=utf-8'')],
      Body = helloBody, BodyEncoded = False\<rparr>"

definition binaryResponse :: response where
  "binaryResponse =
     \<lparr>StatusCode = 200, Status = ''200 OK'', Headers = [],
      Body = ''//4AAQ=='', BodyEncoded = True\<rparr>"

definition helloServed :: "unit Request" where
  "helloServed =
     \<lparr>r_Method = ''GET'', r_URL = emptyURL\<lparr>Path := ''/hello''\<rparr>,
      r_Proto = ''HTTP/1.1'', r_ProtoMajor = 1, r_ProtoMinor = 1,
      r_Header = [], r_Body = [], r_ContentLength = 0, r_Host = [], r_ctx = ()\<rparr>"

definition badPathRequest :: request where
  "badPathRequest =
     \<lparr>req_Method = ''POST'', req_Path = ''/%zz'', req_Query = [], req_Headers = [],
      req_Body = ''!'', req_BodyEncoded = True\<rparr>"

definition encodedRequest :: request where
  "encodedRequest =
     \<lparr>req_Method = ''POST'', req_Path = ''/hello'', req_Query = [], req_Headers = [],
      req_Body = ''//4AAQ=='', req_BodyEncoded = True\<rparr>"

definition badBodyRequest :: request where
  "badBodyRequest =
     \<lparr>req_Method = ''POST'', req_Path = ''/hello'', req_Query = [], req_Headers = [],
      req_Body = ''!'', req_BodyEncoded = True\<rparr>"

definition malformedRequest :: request where
  "malformedRequest =
     \<lparr>req_Method = ''GET'', req_Path = ''/foo'', req_Query = [(''a'', ''%zz'')], req_Headers = [],
      req_Body = [], req_BodyEncoded = False\<rparr>"

definition malformedServed :: "unit Request" where
  "malformedServed =
     \<lparr>r_Method = ''GET'', r_URL = emptyURL\<lparr>Path := ''/foo'', RawQuery := ''a=%zz''\<rparr>,
      r_Proto = ''HTTP/1.1'', r_ProtoMajor = 1, r_ProtoMinor = 1,
      r_Header = [], r_Body = [], r_ContentLength = 0, r_Host = [], r_ctx = ()\<rparr>"

definition abQuery :: "(string \<times> string) list" where
  "abQuery = [(''a'', ''1''), (''b'', ''2'')]"

text \<open>
  How a receiver reads the body field of an envelope: it decodes base64 when
  \<open>isBase64Encoded\<close> is set and takes the bytes of the string otherwise.
\<close>

definition envelopeBody :: "response \<Rightarrow> error + byte list" where
  "envelopeBody out = (if BodyEncoded out then DecodeString (Body out) else Inr (Body out))"

section \<open>What a run of the handler looks like\<close>

text \<open>
  The tail of \<open>Run\<close> in closed form, and what a successful run implies: one request was
  served, the handler returned, and the response was built from its recorder.
\<close>

lemma serve_cases:
  "serve h r =
     (case h r of
        Panic v \<Rightarrow> (Panic v, [r])
      | Return recorder \<Rightarrow>
          (Return (Inr \<lparr>StatusCode = res_StatusCode recorder, Status = res_Status recorder,
                         Headers = joinHeaders (res_Header recorder),
                         Body = (if Valid (rec_Body recorder) then rec_Body recorder
                                 else EncodeToString (rec_Body recorder)),
                         BodyEncoded = (\<not> Valid (rec_Body recorder))\<rparr>), [r]))"
  by (simp add: serve_def Let_def split: outcome.splits)

lemma serve_Return:
  assumes "serve h r = (Return (Inr out), rs)"
  shows "\<exists>recorder. rs = [r] \<and> h r = Return recorder
           \<and> StatusCode out = res_StatusCode recorder \<and> Status out = res_Status recorder
           \<and> Headers out = joinHeaders (res_Header recorder)
           \<and> Body out = (if Valid (rec_Body recorder) then rec_Body recorder
                          else EncodeToString (rec_Body recorder))
           \<and> BodyEncoded out = (\<not> Valid (rec_Body recorder))"
  using assms by (auto simp: serve_cases split: outcome.splits)

lemma decodeBody_Return:
  assumes "decodeBody h r req = (Return (Inr out), rs)"
  shows "\<exists>b. serve h (r\<lparr>r_Body := b, r_ContentLength := int (length b)\<rparr>) = (Return (Inr out), rs)
           \<and> (if req_BodyEncoded req then DecodeString (req_Body req) = Inr b else b = req_Body req)"
  using assms by (auto simp: decodeBody_def split: if_splits sum.splits)

lemma decodeBody_plain:
  "\<not> req_BodyEncoded req \<Longrightarrow>
   decodeBody h r req
   = serve h (r\<lparr>r_Body := req_Body req, r_ContentLength := int (length (req_Body req))\<rparr>)"
  by (simp add: decodeBody_def)

lemma Run_Return:
  assumes "Run parseAuthority h ctx req = (Return (Inr out), rs)"
  shows "\<exists>u. buildURL parseAuthority (req_Path req) (req_Query req) = Inr u
           \<and> decodeBody h (newRequest ctx req u) req = (Return (Inr out), rs)"
  using assms by (auto simp: Run_def split: sum.splits)

lemma Run_alb_Return:
  assumes "Run_alb h ctx req = (Return (Inr out), rs)"
  shows "\<exists>u. rebuildURL (req_Path req) (req_Query req) = Inr u
           \<and> decodeBody h (newRequest ctx req u) req = (Return (Inr out), rs)"
  using assms by (auto simp: Run_alb_def split: sum.splits)

lemma Run_served:
  assumes "Run parseAuthority h ctx req = (Return (Inr out), rs)"
  shows "\<exists>r recorder. rs = [r] \<and> h r = Return recorder \<and> serve h r = (Return (Inr out), rs)"
proof -
  from Run_Return [OF assms] obtain u where
    "decodeBody h (newRequest ctx req u) req = (Return (Inr out), rs)" by blast
  from decodeBody_Return [OF this] obtain b where
    s: "serve h (newRequest ctx req u\<lparr>r_Body := b, r_ContentLength := int (length b)\<rparr>) = (Return (Inr out), rs)"
    by blast
  from serve_Return [OF s] s show ?thesis by blast
qed

lemma Run_alb_served:
  assumes "Run_alb h ctx req = (Return (Inr out), rs)"
  shows "\<exists>r recorder. rs = [r] \<and> h r = Return recorder \<and> serve h r = (Return (Inr out), rs)"
proof -
  from Run_alb_Return [OF assms] obtain u where
    "decodeBody h (newRequest ctx req u) req = (Return (Inr out), rs)" by blast
  from decodeBody_Return [OF this] obtain b where
    s: "serve h (newRequest ctx req u\<lparr>r_Body := b, r_ContentLength := int (length b)\<rparr>) = (Return (Inr out), rs)"
    by blast
  from serve_Return [OF s] s show ?thesis by blast
qed

subsection \<open>The examples, evaluated\<close>

lemma Parse_hello: "Parse rejectAuthority ''/hello'' = Inr (emptyURL\<lparr>Path := ''/hello''\<rparr>)"
  by code_simp

lemma EncodeToString_binary: "EncodeToString binaryBody = ''//4AAQ==''"
  by (simp add: binaryBody_def uint_def encode_def encodeStd_def padChar_def Let_def)

lemma Valid_hello: "Valid helloBody"
  by (simp add: helloBody_def uint_def RuneSelf_def)

lemma first_FF: "first (CHR 0xFF) = xx"
  by (simp add: first_def uint_def xx_def)

lemma Valid_binary: "\<not> Valid binaryBody"
  by (simp add: binaryBody_def uint_def RuneSelf_def first_FF)

lemma helloServed_eq:
  "newRequest () helloRequest (emptyURL\<lparr>Path := ''/hello''\<rparr>)
     \<lparr>r_Body := req_Body helloRequest, r_ContentLength := int (length (req_Body helloRequest))\<rparr>
   = helloServed"
  by code_simp

lemma helloRequest_plain: "\<not> req_BodyEncoded helloRequest"
  by (simp add: helloRequest_def)

lemma Run_helloRequest:
  "Run rejectAuthority h () helloRequest = serve h helloServed"
proof -
  have "buildURL rejectAuthority (req_Path helloRequest) (req_Query helloRequest)
        = Inr (emptyURL\<lparr>Path := ''/hello''\<rparr>)"
    by (simp add: buildURL_def helloRequest_def Parse_hello)
  then show ?thesis
    by (simp add: Run_def decodeBody_plain [OF helloRequest_plain] helloServed_eq)
qed

lemma Run_alb_helloRequest:
  "Run_alb h () helloRequest = serve h helloServed"
proof -
  have "rebuildURL (req_Path helloRequest) (req_Query helloRequest)
        = Inr (emptyURL\<lparr>Path := ''/hello''\<rparr>)"
    by (simp add: rebuildURL_def helloRequest_def)
  then show ?thesis
    by (simp add: Run_alb_def decodeBody_plain [OF helloRequest_plain] helloServed_eq)
qed

lemma joinHeaders_hello:
  "joinHeaders helloHeader = [(''Content-Type'', ''text/html,charset=utf-8'')]"
  by (simp add: joinHeaders_def helloHeader_def)

lemma serve_hello:
  "serve (fixedHandler helloRecorder) r = (Return (Inr helloResponse), [r])"
  by (simp add: serve_cases fixedHandler_def helloRecorder_def helloResponse_def Valid_hello
      joinHeaders_hello)

lemma serve_binary:
  "serve (fixedHandler binaryRecorder) r = (Return (Inr binaryResponse), [r])"
  by (simp add: serve_cases fixedHandler_def binaryRecorder_def binaryResponse_def
      Valid_binary EncodeToString_binary joinHeaders_def)

lemma Run_hello:
  "Run rejectAuthority (fixedHandler helloRecorder) () helloRequest
   = (Return (Inr helloResponse), [helloServed])"
  by (simp add: Run_helloRequest serve_hello)

lemma Run_alb_binary:
  "Run_alb (fixedHandler binaryRecorder) () helloRequest
   = (Return (Inr binaryResponse), [helloServed])"
  by (simp add: Run_alb_helloRequest serve_binary)

section \<open>The response body: text or base64\<close>

text \<open>
  Claim C1. Whenever \<open>Run\<close> (either revision) returns a response, exactly one request was
  served and the handler returned with a recorder; with \<open>b\<close> the bytes of the recorder's
  body: if \<open>b\<close> is valid UTF-8 the \<open>body\<close> field is \<open>b\<close> itself and \<open>isBase64Encoded\<close> is
  false, and if \<open>b\<close> is not valid UTF-8 the \<open>body\<close> field is the standard base64 encoding
  of \<open>b\<close> and \<open>isBase64Encoded\<close> is true. So \<open>isBase64Encoded\<close> holds exactly when \<open>b\<close> is
  not valid UTF-8.
\<close>

theorem body_encoding:
  assumes "Run parseAuthority h ctx req = (Return (Inr out), rs)
           \<or> Run_alb h ctx req = (Return (Inr out), rs)"
  shows "\<exists>r recorder. rs = [r] \<and> h r = Return recorder
           \<and> (Valid (rec_Body recorder)
                \<longrightarrow> Body out = rec_Body recorder \<and> BodyEncoded out = False)
           \<and> (\<not> Valid (rec_Body recorder)
                \<longrightarrow> Body out = EncodeToString (rec_Body recorder) \<and> BodyEncoded out = True)
           \<and> (BodyEncoded out \<longleftrightarrow> \<not> Valid (rec_Body recorder))"
proof -
  from assms obtain r recorder where
    r: "rs = [r]" "h r = Return recorder" "serve h r = (Return (Inr out), rs)"
    using Run_served Run_alb_served by metis
  from r(2,3) have "Body out = (if Valid (rec_Body recorder) then rec_Body recorder
                          else EncodeToString (rec_Body recorder))"
    "BodyEncoded out = (\<not> Valid (rec_Body recorder))"
    by (auto simp: serve_cases)
  with r(1,2) show ?thesis by auto
qed

theorem body_encoding_witness:
  "Run rejectAuthority (fixedHandler helloRecorder) () helloRequest
     = (Return (Inr helloResponse), [helloServed])
   \<and> Valid (rec_Body helloRecorder)
   \<and> Body helloResponse = rec_Body helloRecorder \<and> BodyEncoded helloResponse = False
   \<and> Run_alb (fixedHandler binaryRecorder) () helloRequest
     = (Return (Inr binaryResponse), [helloServed])
   \<and> \<not> Valid (rec_Body binaryRecorder)
   \<and> Body binaryResponse = EncodeToString (rec_Body binaryRecorder)
   \<and> BodyEncoded binaryResponse = True"
proof -
  have vh: "Valid (rec_Body helloRecorder)"
    by (simp add: helloRecorder_def Valid_hello)
  have vb: "\<not> Valid (rec_Body binaryRecorder)"
    by (simp add: binaryRecorder_def Valid_binary)
  have "Run rejectAuthority (fixedHandler helloRecorder) () helloRequest
          = (Return (Inr helloResponse), [helloServed])
        \<or> Run_alb (fixedHandler helloRecorder) () helloRequest
          = (Return (Inr helloResponse), [helloServed])"
    using Run_hello by blast
  from body_encoding [OF this] obtain recorder where
    a: "fixedHandler helloRecorder helloServed = Return recorder"
       "Valid (rec_Body recorder)
          \<longrightarrow> Body helloResponse = rec_Body recorder \<and> BodyEncoded helloResponse = False"
    by blast
  from a(1) have "recorder = helloRecorder" by (simp add: fixedHandler_def)
  with a(2) vh
  have 1: "Body helloResponse = rec_Body helloRecorder \<and> BodyEncoded helloResponse = False"
    by blast
  have "Run rejectAuthority (fixedHandler binaryRecorder) () helloRequest
          = (Return (Inr binaryResponse), [helloServed])
        \<or> Run_alb (fixedHandler binaryRecorder) () helloRequest
          = (Return (Inr binaryResponse), [helloServed])"
    using Run_alb_binary by blast
  from body_encoding [OF this] obtain recorder' where
    b: "fixedHandler binaryRecorder helloServed = Return recorder'"
       "\<not> Valid (rec_Body recorder')
          \<longrightarrow> Body binaryResponse = EncodeToString (rec_Body recorder')
              \<and> BodyEncoded binaryResponse = True"
    by blast
  from b(1) have "recorder' = binaryRecorder" by (simp add: fixedHandler_def)
  with b(2) vb
  have 2: "Body binaryResponse = EncodeToString (rec_Body binaryRecorder)
           \<and> BodyEncoded binaryResponse = True"
    by blast
  from 1 2 Run_hello Run_alb_binary vh vb show ?thesis
    by blast
qed

section \<open>Base64: decoding what was encoded\<close>

text \<open>
  Shifts and masks of the two conversions as arithmetic, then one quantum at a time:
  \<open>DecodeString\<close> returns the bytes that \<open>EncodeToString\<close> was given.
\<close>

lemma and_63: "(x::nat) AND 63 = x mod 64"
proof -
  have "mask 6 = (63::nat)" by (simp add: mask_eq_exp_minus_1)
  then have "x AND 63 = take_bit 6 x" by (simp add: take_bit_eq_mask)
  then show ?thesis by (simp add: take_bit_eq_mod)
qed

lemma push_bit_or_add:
  fixes a b :: nat
  assumes "b < 2 ^ n"
  shows "push_bit n a OR b = a * 2 ^ n + b"
proof -
  have "\<not> bit (push_bit n a) m \<or> \<not> bit b m" for m
  proof (cases "m < n")
    case True
    then show ?thesis by (simp add: bit_push_bit_iff)
  next
    case False
    have "take_bit n b = b" using assms by (rule take_bit_nat_eq_self)
    then have "bit b m = bit (take_bit n b) m" by simp
    with False show ?thesis by (simp add: bit_take_bit_iff)
  qed
  then have "push_bit n a + b = push_bit n a OR b" by (rule disjunctive_add)
  then show ?thesis by (simp add: push_bit_eq_mult)
qed

lemma uint_less: "uint c < 256"
  by (simp add: uint_def)

lemma byte_uint: "byte (uint c) = c"
  by (simp add: uint_def byte_def)

lemma val3_eq:
  assumes "B < 256" "C < 256"
  shows "push_bit 16 A OR push_bit 8 B OR C = A * 65536 + (B * 256 + (C::nat))"
proof -
  have 1: "push_bit 8 B OR C = B * 256 + C"
    using push_bit_or_add [of C 8 B] assms by simp
  have "B * 256 + C < 2 ^ 16" using assms by simp
  then have "push_bit 16 A OR (B * 256 + C) = A * 65536 + (B * 256 + C)"
    using push_bit_or_add [of "B * 256 + C" 16 A] by simp
  with 1 show ?thesis by simp
qed

lemma recompose:
  assumes "s1 < 64" "s2 < 64" "s3 < 64"
  shows "push_bit 18 s0 OR push_bit 12 s1 OR push_bit 6 s2 OR s3
         = s0 * 262144 + (s1 * 4096 + (s2 * 64 + (s3::nat)))"
proof -
  have 1: "push_bit 6 s2 OR s3 = s2 * 64 + s3"
    using push_bit_or_add [of s3 6 s2] assms by simp
  have "s2 * 64 + s3 < 2 ^ 12" using assms by simp
  then have 2: "push_bit 12 s1 OR (s2 * 64 + s3) = s1 * 4096 + (s2 * 64 + s3)"
    using push_bit_or_add [of "s2 * 64 + s3" 12 s1] by simp
  have "s1 * 4096 + (s2 * 64 + s3) < 2 ^ 18" using assms by simp
  then have 3: "push_bit 18 s0 OR (s1 * 4096 + (s2 * 64 + s3)) = s0 * 262144 + (s1 * 4096 + (s2 * 64 + s3))"
    using push_bit_or_add [of "s1 * 4096 + (s2 * 64 + s3)" 18 s0] by simp
  from 1 2 3 show ?thesis by simp
qed

lemma digits64:
  fixes v :: nat
  shows "(v div 262144) * 262144 + ((v div 4096 mod 64) * 4096 + ((v div 64 mod 64) * 64 + v mod 64)) = v"
proof -
  define q1 where "q1 = v div 64"
  define q2 where "q2 = q1 div 64"
  define q3 where "q3 = q2 div 64"
  have d2: "v div 4096 = q2" by (simp add: q2_def q1_def div_mult2_eq [symmetric])
  have d3: "v div 262144 = q3" by (simp add: q3_def q2_def q1_def div_mult2_eq [symmetric])
  have e1: "v = q1 * 64 + v mod 64" by (simp add: q1_def)
  have e2: "q1 = q2 * 64 + q1 mod 64" by (simp add: q2_def)
  have e3: "q2 = q3 * 64 + q2 mod 64" by (simp add: q3_def)
  have "q3 * 262144 + (q2 mod 64 * 4096 + (q1 mod 64 * 64 + v mod 64)) = v"
    using e1 e2 e3 by linarith
  then show ?thesis by (simp add: d2 d3 q1_def)
qed

lemma sextets_recompose:
  fixes v :: nat
  assumes "v < 16777216"
  shows "push_bit 18 (drop_bit 18 v AND 0x3F) OR push_bit 12 (drop_bit 12 v AND 0x3F)
         OR push_bit 6 (drop_bit 6 v AND 0x3F) OR (v AND 0x3F) = v"
proof -
  have "v div 262144 < 64" using assms by simp
  then have top: "v div 262144 mod 64 = v div 262144" by simp
  have "push_bit 18 (v div 262144 mod 64) OR push_bit 12 (v div 4096 mod 64)
         OR push_bit 6 (v div 64 mod 64) OR (v mod 64)
        = (v div 262144 mod 64) * 262144 + ((v div 4096 mod 64) * 4096 + ((v div 64 mod 64) * 64 + v mod 64))"
    by (rule recompose) simp_all
  also have "\<dots> = v" using digits64 [of v] by (simp only: top)
  finally show ?thesis by (simp add: and_63 drop_bit_eq_div)
qed

lemma group_bytes:
  fixes A B C :: nat
  assumes "B < 256" "C < 256"
  defines "v \<equiv> A * 65536 + (B * 256 + C)"
  shows "byte (drop_bit 16 v) = byte A" "byte (drop_bit 8 v) = byte B" "byte v = byte C"
proof -
  have "v div 65536 = A" using assms by simp
  then show "byte (drop_bit 16 v) = byte A" by (simp add: drop_bit_eq_div)
  have "v = (A * 256 + B) * 256 + C" by (simp add: v_def)
  then have "v div 256 = A * 256 + B" using assms by simp
  moreover have "char_of (A * 256 + B) = char_of B"
    by (metis char_of_mod_256 mod_mult_self3)
  ultimately show "byte (drop_bit 8 v) = byte B" by (simp add: drop_bit_eq_div byte_def)
  have "v = (A * 65536 + B * 256) + C" by (simp add: v_def)
  have "v mod 256 = C" using assms by (simp add: v_def mod_add_left_eq [symmetric] flip: mod_add_eq)
  then show "byte v = byte C" by (metis byte_def char_of_mod_256)
qed

lemma decodeMap_encode_all: "\<forall>i \<in> set [0..<64]. decodeMap (encode i) = Some i"
  by code_simp

lemma decodeMap_encode: "decodeMap (encode (x AND 0x3F)) = Some (x AND 0x3F)"
proof -
  have "x AND 0x3F < 64" by (simp add: and_63)
  then show ?thesis using decodeMap_encode_all by simp
qed

lemma decodeMap_padChar: "decodeMap padChar = None"
  by code_simp

lemma isNewline_padChar: "\<not> isNewline padChar"
  by (simp add: isNewline_def padChar_def)

lemma scanQuantum_full:
  "scanQuantum [s0, s1, s2, s3] src si = Break [s0, s1, s2, s3] 4 src si None"
  by (cases src) simp_all

lemma convert_sextets:
  fixes A B C :: nat
  assumes "A < 256" "B < 256" "C < 256"
  defines "v \<equiv> A * 65536 + (B * 256 + C)"
  shows "convert (drop_bit 18 v AND 0x3F) (drop_bit 12 v AND 0x3F) (drop_bit 6 v AND 0x3F) (v AND 0x3F)
         = [byte A, byte B, byte C]"
proof -
  have "v < 16777216" using assms by simp
  then have r: "push_bit 18 (drop_bit 18 v AND 0x3F) OR push_bit 12 (drop_bit 12 v AND 0x3F)
         OR push_bit 6 (drop_bit 6 v AND 0x3F) OR (v AND 0x3F) = v"
    by (rule sextets_recompose)
  have b: "byte (drop_bit 16 v) = byte A" "byte (drop_bit 8 v) = byte B" "byte v = byte C"
    unfolding v_def by (rule group_bytes; fact)+
  show ?thesis
    unfolding convert_def r Let_def b ..
qed

lemma decodeQuantum_group3:
  "decodeQuantum (EncodeToString [a, b, c] @ rest) si = (rest, si + 4, [a, b, c], None)"
proof -
  define v where "v = uint a * 65536 + (uint b * 256 + uint c)"
  have v: "push_bit 16 (uint a) OR push_bit 8 (uint b) OR uint c = v"
    unfolding v_def by (rule val3_eq) (rule uint_less)+
  have c: "convert (drop_bit 18 v AND 0x3F) (drop_bit 12 v AND 0x3F) (drop_bit 6 v AND 0x3F) (v AND 0x3F)
         = [a, b, c]"
    using convert_sextets [of "uint a" "uint b" "uint c"] uint_less
    by (simp only: v_def byte_uint)
  show ?thesis
    by (simp add: decodeQuantum_def v Let_def decodeMap_encode scanQuantum_full sextet_def c)
qed

lemma decodeQuantum_group2:
  "decodeQuantum (EncodeToString [a, b]) si = ([], si + 4, [a, b], None)"
proof -
  define v where "v = uint a * 65536 + (uint b * 256 + 0)"
  have v: "push_bit 16 (uint a) OR push_bit 8 (uint b) = v"
    using val3_eq [of "uint b" 0 "uint a"] uint_less [of b] by (simp add: v_def)
  have "v = (uint a * 1024 + uint b * 4) * 64" by (simp add: v_def)
  then have "v mod 64 = 0" by simp
  then have z: "v AND 0x3F = 0" by (simp add: and_63)
  have "convert (drop_bit 18 v AND 0x3F) (drop_bit 12 v AND 0x3F) (drop_bit 6 v AND 0x3F) (v AND 0x3F)
         = [a, b, byte 0]"
    using convert_sextets [of "uint a" "uint b" 0] uint_less
    by (simp only: v_def byte_uint)
  then have c: "convert (drop_bit 18 v AND 0x3F) (drop_bit 12 v AND 0x3F) (drop_bit 6 v AND 0x3F) 0
         = [a, b, byte 0]"
    by (simp only: z)
  show ?thesis
    by (simp add: decodeQuantum_def v Let_def decodeMap_encode decodeMap_padChar isNewline_padChar
        finishPadding_def sextet_def c)
qed

lemma decodeQuantum_group1:
  "decodeQuantum (EncodeToString [a]) si = ([], si + 4, [a], None)"
proof -
  define v where "v = uint a * 65536 + (0 * 256 + 0)"
  have v: "push_bit 16 (uint a) = v"
    by (simp add: v_def push_bit_eq_mult)
  have "v = (uint a * 1024) * 64" by (simp add: v_def)
  then have "v mod 64 = 0" by simp
  then have z: "v AND 0x3F = 0" by (simp add: and_63)
  have "v div 64 = (uint a * 16) * 64" by (simp add: v_def)
  then have "v div 64 mod 64 = 0" by simp
  then have z2: "drop_bit 6 v AND 0x3F = 0" by (simp add: and_63 drop_bit_eq_div)
  have "convert (drop_bit 18 v AND 0x3F) (drop_bit 12 v AND 0x3F) (drop_bit 6 v AND 0x3F) (v AND 0x3F)
         = [a, byte 0, byte 0]"
    using convert_sextets [of "uint a" 0 0] uint_less
    by (simp only: v_def byte_uint)
  then have c: "convert (drop_bit 18 v AND 0x3F) (drop_bit 12 v AND 0x3F) 0 0
         = [a, byte 0, byte 0]"
    by (simp only: z z2)
  show ?thesis
    by (simp add: decodeQuantum_def v Let_def decodeMap_encode decodeMap_padChar isNewline_padChar
        finishPadding_def sextet_def c)
qed

lemma EncodeToString_Cons3:
  "EncodeToString (a # b # c # rest) = EncodeToString [a, b, c] @ EncodeToString rest"
  by (simp add: Let_def)

lemma EncodeToString_nonempty: "bs \<noteq> [] \<Longrightarrow> EncodeToString bs \<noteq> []"
  by (induction bs rule: EncodeToString.induct) (simp_all add: Let_def)

lemma Decode_EncodeToString: "Decode (EncodeToString bs) si = Inr bs"
proof (induction bs arbitrary: si rule: EncodeToString.induct)
  case 1
  show ?case by (subst Decode.simps) simp
next
  case (2 a)
  have ne: "EncodeToString [a] \<noteq> []" by (rule EncodeToString_nonempty) simp
  have e: "Decode [] (si + 4) = Inr []" by (subst Decode.simps) simp
  show ?case
    by (subst Decode.simps) (simp only: ne decodeQuantum_group1 e if_False prod.case option.case sum.case append_Nil2)
next
  case (3 a b)
  have ne: "EncodeToString [a, b] \<noteq> []" by (rule EncodeToString_nonempty) simp
  have e: "Decode [] (si + 4) = Inr []" by (subst Decode.simps) simp
  show ?case
    by (subst Decode.simps) (simp only: ne decodeQuantum_group2 e if_False prod.case option.case sum.case append_Nil2)
next
  case (4 a b c rest)
  have ne: "EncodeToString [a, b, c] @ EncodeToString rest \<noteq> []"
    using EncodeToString_nonempty [of "[a, b, c]"] by simp
  show ?case
    by (subst EncodeToString_Cons3, subst Decode.simps)
       (simp only: ne decodeQuantum_group3 4 if_False prod.case option.case sum.case append.simps)
qed

lemma DecodeString_EncodeToString: "DecodeString (EncodeToString bs) = Inr bs"
  by (simp add: DecodeString_def Decode_EncodeToString)

text \<open>
  Claim C2. Whenever \<open>Run\<close> (either revision) returns a response for a recorder body \<open>b\<close>,
  reading the envelope's body field back (base64-decoding it if \<open>isBase64Encoded\<close> is set,
  taking its bytes otherwise) yields exactly \<open>b\<close>. A valid UTF-8 body comes back as the
  same text with \<open>isBase64Encoded\<close> false; a body that is not valid UTF-8 is sent as its
  standard base64 encoding with \<open>isBase64Encoded\<close> true, and decoding that gives \<open>b\<close>.
\<close>

theorem body_round_trip:
  assumes "Run parseAuthority h ctx req = (Return (Inr out), rs)
           \<or> Run_alb h ctx req = (Return (Inr out), rs)"
  shows "\<exists>r recorder. rs = [r] \<and> h r = Return recorder
           \<and> envelopeBody out = Inr (rec_Body recorder)
           \<and> (Valid (rec_Body recorder)
                \<longrightarrow> \<not> BodyEncoded out \<and> Body out = rec_Body recorder)
           \<and> (\<not> Valid (rec_Body recorder)
                \<longrightarrow> BodyEncoded out \<and> Body out = EncodeToString (rec_Body recorder)
                    \<and> DecodeString (Body out) = Inr (rec_Body recorder))"
proof -
  from assms obtain r recorder where
    r: "rs = [r]" "h r = Return recorder" "serve h r = (Return (Inr out), rs)"
    using Run_served Run_alb_served by metis
  from r(2,3) have o: "Body out = (if Valid (rec_Body recorder) then rec_Body recorder
                          else EncodeToString (rec_Body recorder))"
    "BodyEncoded out = (\<not> Valid (rec_Body recorder))"
    by (auto simp: serve_cases)
  then have "envelopeBody out = Inr (rec_Body recorder)"
    by (simp add: envelopeBody_def DecodeString_EncodeToString)
  with r(1,2) o show ?thesis
    by (auto simp: DecodeString_EncodeToString)
qed

theorem body_round_trip_witness:
  "Run rejectAuthority (fixedHandler binaryRecorder) () helloRequest
     = (Return (Inr binaryResponse), [helloServed])
   \<and> \<not> Valid binaryBody
   \<and> BodyEncoded binaryResponse \<and> Body binaryResponse = ''//4AAQ==''
   \<and> DecodeString ''//4AAQ=='' = Inr binaryBody
   \<and> envelopeBody binaryResponse = Inr binaryBody
   \<and> Run_alb (fixedHandler helloRecorder) () helloRequest
     = (Return (Inr helloResponse), [helloServed])
   \<and> Valid helloBody
   \<and> \<not> BodyEncoded helloResponse \<and> Body helloResponse = helloBody
   \<and> envelopeBody helloResponse = Inr helloBody"
proof -
  have rb: "Run rejectAuthority (fixedHandler binaryRecorder) () helloRequest
     = (Return (Inr binaryResponse), [helloServed])"
    by (simp add: Run_helloRequest serve_binary)
  have rh: "Run_alb (fixedHandler helloRecorder) () helloRequest
     = (Return (Inr helloResponse), [helloServed])"
    by (simp add: Run_alb_helloRequest serve_hello)
  from rb have "Run rejectAuthority (fixedHandler binaryRecorder) () helloRequest
          = (Return (Inr binaryResponse), [helloServed])
        \<or> Run_alb (fixedHandler binaryRecorder) () helloRequest
          = (Return (Inr binaryResponse), [helloServed])"
    by blast
  from body_round_trip [OF this] obtain r recorder where
    a: "fixedHandler binaryRecorder r = Return recorder"
       "envelopeBody binaryResponse = Inr (rec_Body recorder)"
       "\<not> Valid (rec_Body recorder)
          \<longrightarrow> BodyEncoded binaryResponse
              \<and> Body binaryResponse = EncodeToString (rec_Body recorder)
              \<and> DecodeString (Body binaryResponse) = Inr (rec_Body recorder)"
    by blast
  from a(1) have "rec_Body recorder = binaryBody"
    by (auto simp: fixedHandler_def binaryRecorder_def)
  with a(2,3) Valid_binary
  have 1: "envelopeBody binaryResponse = Inr binaryBody" "BodyEncoded binaryResponse"
    "Body binaryResponse = ''//4AAQ==''" "DecodeString ''//4AAQ=='' = Inr binaryBody"
    by (auto simp: EncodeToString_binary)
  from rh have "Run parseAuthority (fixedHandler helloRecorder) () helloRequest
          = (Return (Inr helloResponse), [helloServed])
        \<or> Run_alb (fixedHandler helloRecorder) () helloRequest
          = (Return (Inr helloResponse), [helloServed])" for parseAuthority
    by blast
  from body_round_trip [OF this] obtain r' recorder' where
    b: "fixedHandler helloRecorder r' = Return recorder'"
       "envelopeBody helloResponse = Inr (rec_Body recorder')"
       "Valid (rec_Body recorder')
          \<longrightarrow> \<not> BodyEncoded helloResponse \<and> Body helloResponse = rec_Body recorder'"
    by blast
  from b(1) have "rec_Body recorder' = helloBody"
    by (auto simp: fixedHandler_def helloRecorder_def)
  with b(2,3) Valid_hello
  have 2: "envelopeBody helloResponse = Inr helloBody" "\<not> BodyEncoded helloResponse"
    "Body helloResponse = helloBody"
    by simp_all
  show ?thesis
    using rb rh Valid_binary Valid_hello 1 2 by blast
qed

section \<open>The request body\<close>

lemma snd_serve: "snd (serve h r) = [r]"
  by (simp add: serve_cases split: outcome.splits)




section \<open>Response headers\<close>

lemma map_of_joinHeaders_foldl:
  "map_of (foldl (\<lambda>m (k, vv). AList.update k (Join vv '','') m) acc h) k
   = (case map_of (rev h) k of None \<Rightarrow> map_of acc k | Some vv \<Rightarrow> Some (Join vv '',''))"
proof (induction h arbitrary: acc)
  case Nil
  show ?case by simp
next
  case (Cons e h)
  obtain k' vv' where e: "e = (k', vv')" by (cases e)
  show ?case
    by (simp add: e Cons.IH update_conv' map_add_def split: option.splits)
qed

lemma map_of_joinHeaders:
  assumes "distinct (map fst h)" "(k, vv) \<in> set h"
  shows "map_of (joinHeaders h) k = Some (Join vv '','')"
proof -
  have "distinct (map fst (rev h))" using assms(1) by (simp add: rev_map [symmetric])
  moreover have "(k, vv) \<in> set (rev h)" using assms(2) by simp
  ultimately have "map_of (rev h) k = Some vv" by (rule map_of_is_SomeI)
  then show ?thesis by (simp add: joinHeaders_def map_of_joinHeaders_foldl)
qed

lemma keys_joinHeaders_foldl:
  "fst ` set (foldl (\<lambda>m (k, vv). AList.update k (Join vv '','') m) acc h)
   = fst ` set acc \<union> fst ` set h"
proof -
  let ?f = "foldl (\<lambda>m (k, vv). AList.update k (Join vv '','') m) acc h"
  have "dom (map_of ?f) = dom (map_of acc) \<union> dom (map_of (rev h))"
    by (auto simp: map_of_joinHeaders_foldl dom_def split: option.splits)
  then show ?thesis
    by (simp add: dom_map_of_conv_image_fst)
qed

lemma distinct_joinHeaders_foldl:
  "distinct (map fst acc) \<Longrightarrow>
   distinct (map fst (foldl (\<lambda>m (k, vv). AList.update k (Join vv '','') m) acc h))"
  by (induction h arbitrary: acc) (auto simp: distinct_update)

lemma Join_hello: "Join [''text/html'', ''charset=utf-8''] '','' = ''text/html,charset=utf-8''"
  by simp

text \<open>
  Claim C7. Whenever \<open>Run\<close> (either revision) returns a response, every entry of the
  recorded header map, with name \<open>k\<close> and values \<open>vv\<close>, appears in the envelope under \<open>k\<close> as
  one string: the values joined with a comma, in their recorded order. The envelope has
  the recorded names and no others. The keys of a Go map are distinct. For example the
  values \<open>text/html\<close> and \<open>charset=utf-8\<close> become \<open>text/html,charset=utf-8\<close>.
\<close>

theorem headers_joined:
  assumes "Run parseAuthority h ctx req = (Return (Inr out), [r])
           \<or> Run_alb h ctx req = (Return (Inr out), [r])"
    and "h r = Return recorder"
    and "distinct (map fst (res_Header recorder))"
    and "(k, vv) \<in> set (res_Header recorder)"
  shows "map_of (Headers out) k = Some (Join vv '','')
         \<and> distinct (map fst (Headers out))
         \<and> fst ` set (Headers out) = fst ` set (res_Header recorder)"
proof -
  from assms(1) obtain r' recorder' where
    r: "[r] = [r']" "h r' = Return recorder'" "serve h r' = (Return (Inr out), [r])"
    using Run_served Run_alb_served by metis
  with assms(2) have "recorder' = recorder" by simp
  with r(2,3) have "Headers out = joinHeaders (res_Header recorder)"
    by (auto simp: serve_cases)
  then show ?thesis
    using map_of_joinHeaders [OF assms(3,4)]
      keys_joinHeaders_foldl [of "[]" "res_Header recorder"]
      distinct_joinHeaders_foldl [of "[]" "res_Header recorder"]
    by (simp add: joinHeaders_def)
qed

theorem headers_joined_witness:
  "Run rejectAuthority (fixedHandler helloRecorder) () helloRequest
     = (Return (Inr helloResponse), [helloServed])
   \<and> fixedHandler helloRecorder helloServed = Return helloRecorder
   \<and> distinct (map fst (res_Header helloRecorder))
   \<and> (''Content-Type'', [''text/html'', ''charset=utf-8'']) \<in> set (res_Header helloRecorder)
   \<and> map_of (Headers helloResponse) ''Content-Type'' = Some ''text/html,charset=utf-8''"
proof -
  have 1: "Run rejectAuthority (fixedHandler helloRecorder) () helloRequest
           = (Return (Inr helloResponse), [helloServed])
         \<or> Run_alb (fixedHandler helloRecorder) () helloRequest
           = (Return (Inr helloResponse), [helloServed])"
    using Run_hello by blast
  have 2: "fixedHandler helloRecorder helloServed = Return helloRecorder"
    by (simp add: fixedHandler_def)
  have 3: "distinct (map fst (res_Header helloRecorder))"
    by (simp add: helloRecorder_def helloHeader_def)
  have 4: "(''Content-Type'', [''text/html'', ''charset=utf-8'']) \<in> set (res_Header helloRecorder)"
    by (simp add: helloRecorder_def helloHeader_def)
  have "map_of (Headers helloResponse) ''Content-Type''
        = Some (Join [''text/html'', ''charset=utf-8''] '','')"
    using headers_joined [OF 1 2 3 4] by (rule conjunct1)
  then have 5: "map_of (Headers helloResponse) ''Content-Type'' = Some ''text/html,charset=utf-8''"
    by (simp only: Join_hello)
  from Run_hello 2 3 4 5 show ?thesis by blast
qed

section \<open>The constructor\<close>

text \<open>
  Claim C10. \<open>Handler\<close> panics when it is given a nil handler. Given any other handler it
  returns the method value \<open>Run\<close> of that handler and hands no request to it. It panics
  in no other case. Both revisions.
\<close>

theorem Handler_nil_panics:
  "Handler parseAuthority None = (Panic ''Wrap called with nil handler'', [])
   \<and> Handler parseAuthority (Some h) = (Return (Run parseAuthority h), [])
   \<and> ((\<exists>v. fst (Handler parseAuthority h') = Panic v) \<longleftrightarrow> h' = None)
   \<and> snd (Handler parseAuthority h') = []
   \<and> Handler_alb None = (Panic ''Wrap called with nil handler'', [])
   \<and> Handler_alb (Some h) = (Return (Run_alb h), [])
   \<and> ((\<exists>v. fst (Handler_alb h') = Panic v) \<longleftrightarrow> h' = None)
   \<and> snd (Handler_alb h') = []"
  by (cases h') (simp_all add: Handler_def Handler_alb_def)

section \<open>Errors of the body decoder\<close>

lemma finishPadding_err:
  "scan_err (finishPadding dbuf src si) = Some e \<Longrightarrow> \<exists>n. e = CorruptInputError n"
  by (auto simp: finishPadding_def split: prod.splits if_splits)

lemma scanQuantum_err:
  "scan_err (scanQuantum dbuf src si) = Some e \<Longrightarrow> \<exists>n. e = CorruptInputError n"
proof (induction dbuf src si rule: scanQuantum.induct)
  case (1 dbuf si)
  then show ?case by (auto split: if_splits)
next
  case (2 dbuf c src si)
  then show ?case
    by (auto split: if_splits option.splits prod.splits list.splits dest: finishPadding_err)
qed

lemma decodeQuantum_err:
  "decodeQuantum src si = (rest, nsi, out, Some e) \<Longrightarrow> \<exists>n. e = CorruptInputError n"
  using scanQuantum_err [of "[]" src si e]
  by (cases "scanQuantum [] src si") (auto simp: decodeQuantum_def)

lemma Decode_err: "Decode src si = Inl e \<Longrightarrow> \<exists>n. e = CorruptInputError n"
proof (induction src si rule: Decode.induct)
  case (1 src si)
  show ?case
  proof (cases "src = []")
    case True
    with 1(2) show ?thesis by (simp add: Decode.simps)
  next
    case False
    obtain rest nsi out err where q: "decodeQuantum src si = (rest, nsi, out, err)"
      by (cases "decodeQuantum src si") auto
    show ?thesis
    proof (cases err)
      case None
      with False q 1(2) have "Decode rest nsi = Inl e"
        by (subst (asm) Decode.simps) (simp split: sum.splits)
      with 1(1) [OF False q [symmetric] refl refl] None show ?thesis by simp
    next
      case (Some e')
      with False q 1(2) have "e = e'"
        by (subst (asm) Decode.simps) simp
      with decodeQuantum_err q Some show ?thesis by blast
    qed
  qed
qed

lemma DecodeString_err: "DecodeString s = Inl e \<Longrightarrow> \<exists>n. e = CorruptInputError n"
  unfolding DecodeString_def by (rule Decode_err)

lemma decodeBody_encoded:
  "req_BodyEncoded req \<Longrightarrow>
   decodeBody h r req
   = (case DecodeString (req_Body req) of
        Inl err \<Rightarrow> (Return (Inl err), [])
      | Inr b \<Rightarrow> serve h (r\<lparr>r_Body := b, r_ContentLength := int (length b)\<rparr>))"
  by (simp add: decodeBody_def)

lemma decodeMap_bang: "decodeMap (CHR ''!'') = None"
  by code_simp

lemma DecodeString_bang: "DecodeString ''!'' = Inl (CorruptInputError 0)"
  by (simp add: DecodeString_def Decode.simps decodeQuantum_def decodeMap_bang
      isNewline_def padChar_def)

lemma DecodeString_binary: "DecodeString ''//4AAQ=='' = Inr binaryBody"
  using DecodeString_EncodeToString [of binaryBody] by (simp only: EncodeToString_binary)

text \<open>
  Claim C4, as stated, fails: the URL is built before the body is decoded, so for an
  event with \<open>isBase64Encoded\<close> set, a body that is not base64 and a path that does not
  parse, the error returned is the parser's and not a decode error.
\<close>

theorem encoded_body_counterexample:
  "req_BodyEncoded badPathRequest
   \<and> DecodeString (req_Body badPathRequest) = Inl (CorruptInputError 0)
   \<and> Run rejectAuthority (fixedHandler helloRecorder) () badPathRequest
     = (Return (Inl (URLError ''parse'' ''/%zz'' (EscapeError ''%zz''))), [])
   \<and> \<not> (\<exists>n. fst (Run rejectAuthority (fixedHandler helloRecorder) () badPathRequest)
              = Return (Inl (CorruptInputError n)))"
proof -
  have 1: "DecodeString (req_Body badPathRequest) = Inl (CorruptInputError 0)"
    by (simp add: badPathRequest_def DecodeString_bang)
  have "Parse rejectAuthority ''/%zz'' = Inl (URLError ''parse'' ''/%zz'' (EscapeError ''%zz''))"
    by code_simp
  then have 2: "Run rejectAuthority (fixedHandler helloRecorder) () badPathRequest
     = (Return (Inl (URLError ''parse'' ''/%zz'' (EscapeError ''%zz''))), [])"
    by (simp add: Run_def buildURL_def badPathRequest_def)
  have 3: "req_BodyEncoded badPathRequest" by (simp add: badPathRequest_def)
  from 1 2 3 show ?thesis by simp
qed

text \<open>
  Claim C4, amended. For every event with \<open>isBase64Encoded\<close> set on which the URL can be
  built: if the body string decodes as standard base64, the request handed to the handler
  has the decoded bytes as its body and their number as its \<open>ContentLength\<close>; if it does not,
  \<open>Run\<close> returns the decoder's \<open>CorruptInputError\<close>, no response, and no request is handed
  to the handler. If the URL cannot be built, \<open>Run\<close> returns that error, no response, and
  no request is handed to the handler. Both revisions.
\<close>

theorem encoded_body_request:
  assumes "req_BodyEncoded req"
  shows "(\<forall>u b. buildURL parseAuthority (req_Path req) (req_Query req) = Inr u
              \<and> DecodeString (req_Body req) = Inr b
            \<longrightarrow> snd (Run parseAuthority h ctx req)
                = [newRequest ctx req u\<lparr>r_Body := b, r_ContentLength := int (length b)\<rparr>])
       \<and> (\<forall>u e. buildURL parseAuthority (req_Path req) (req_Query req) = Inr u
              \<and> DecodeString (req_Body req) = Inl e
            \<longrightarrow> Run parseAuthority h ctx req = (Return (Inl e), [])
                \<and> (\<exists>n. e = CorruptInputError n))
       \<and> (\<forall>e. buildURL parseAuthority (req_Path req) (req_Query req) = Inl e
            \<longrightarrow> Run parseAuthority h ctx req = (Return (Inl e), []))
       \<and> (\<forall>u b. rebuildURL (req_Path req) (req_Query req) = Inr u
              \<and> DecodeString (req_Body req) = Inr b
            \<longrightarrow> snd (Run_alb h ctx req)
                = [newRequest ctx req u\<lparr>r_Body := b, r_ContentLength := int (length b)\<rparr>])
       \<and> (\<forall>u e. rebuildURL (req_Path req) (req_Query req) = Inr u
              \<and> DecodeString (req_Body req) = Inl e
            \<longrightarrow> Run_alb h ctx req = (Return (Inl e), [])
                \<and> (\<exists>n. e = CorruptInputError n))
       \<and> (\<forall>e. rebuildURL (req_Path req) (req_Query req) = Inl e
            \<longrightarrow> Run_alb h ctx req = (Return (Inl e), []))"
  using assms
  by (auto simp: Run_def Run_alb_def decodeBody_encoded snd_serve dest: DecodeString_err)

theorem encoded_body_request_witness:
  "req_BodyEncoded encodedRequest
   \<and> buildURL rejectAuthority (req_Path encodedRequest) (req_Query encodedRequest)
     = Inr (emptyURL\<lparr>Path := ''/hello''\<rparr>)
   \<and> DecodeString (req_Body encodedRequest) = Inr binaryBody
   \<and> snd (Run rejectAuthority (fixedHandler helloRecorder) () encodedRequest)
     = [newRequest () encodedRequest (emptyURL\<lparr>Path := ''/hello''\<rparr>)
          \<lparr>r_Body := binaryBody, r_ContentLength := int (length binaryBody)\<rparr>]
   \<and> req_BodyEncoded badBodyRequest
   \<and> buildURL rejectAuthority (req_Path badBodyRequest) (req_Query badBodyRequest)
     = Inr (emptyURL\<lparr>Path := ''/hello''\<rparr>)
   \<and> DecodeString (req_Body badBodyRequest) = Inl (CorruptInputError 0)
   \<and> Run rejectAuthority (fixedHandler helloRecorder) () badBodyRequest
     = (Return (Inl (CorruptInputError 0)), [])"
proof -
  have e: "req_BodyEncoded encodedRequest" by (simp add: encodedRequest_def)
  have u: "buildURL rejectAuthority (req_Path encodedRequest) (req_Query encodedRequest)
           = Inr (emptyURL\<lparr>Path := ''/hello''\<rparr>)"
    by (simp add: buildURL_def encodedRequest_def Parse_hello)
  have d: "DecodeString (req_Body encodedRequest) = Inr binaryBody"
    by (simp add: encodedRequest_def DecodeString_binary)
  have 1: "snd (Run rejectAuthority (fixedHandler helloRecorder) () encodedRequest)
     = [newRequest () encodedRequest (emptyURL\<lparr>Path := ''/hello''\<rparr>)
          \<lparr>r_Body := binaryBody, r_ContentLength := int (length binaryBody)\<rparr>]"
    using encoded_body_request [OF e, of rejectAuthority "fixedHandler helloRecorder" "()"] u d
    by blast
  have e': "req_BodyEncoded badBodyRequest" by (simp add: badBodyRequest_def)
  have u': "buildURL rejectAuthority (req_Path badBodyRequest) (req_Query badBodyRequest)
           = Inr (emptyURL\<lparr>Path := ''/hello''\<rparr>)"
    by (simp add: buildURL_def badBodyRequest_def Parse_hello)
  have d': "DecodeString (req_Body badBodyRequest) = Inl (CorruptInputError 0)"
    by (simp add: badBodyRequest_def DecodeString_bang)
  have 2: "Run rejectAuthority (fixedHandler helloRecorder) () badBodyRequest
     = (Return (Inl (CorruptInputError 0)), [])"
    using encoded_body_request [OF e', of rejectAuthority "fixedHandler helloRecorder" "()"] u' d'
    by blast
  from e u d 1 e' u' d' 2 show ?thesis by blast
qed

section \<open>What the URL parser does with the pieces\<close>

lemma unescape_path_plain:
  "CHR ''%'' \<notin> set s \<Longrightarrow> unescape s encodePath = Inr s"
  by (induction s) auto

lemma setPath_plain:
  "CHR ''%'' \<notin> set p \<Longrightarrow>
   setPath u p = Inr (u\<lparr>Path := p, RawPath := (if p = escape p encodePath then [] else p)\<rparr>)"
  by (simp add: setPath_def unescape_path_plain)

lemma getScheme_slash: "getScheme (CHR ''/'' # s) = Inr ([], CHR ''/'' # s)"
  by (simp add: getScheme_def isAlpha_def isDigit_def within_def)

lemma Cut_absent: "sep \<notin> set s \<Longrightarrow> Cut s sep = (s, [], False)"
  by (simp add: Cut_def)


lemma not_CTL_append:
  "stringContainsCTLByte (a @ b) = (stringContainsCTLByte a \<or> stringContainsCTLByte b)"
  by (simp add: stringContainsCTLByte_def)

lemma not_CTL_question: "\<not> stringContainsCTLByte ''?''"
  by (simp add: stringContainsCTLByte_def)

lemma parse_plain:
  assumes "plainPath p"
  shows "parse parseAuthority p
         = Inr (emptyURL\<lparr>Path := p, RawPath := (if p = escape p encodePath then [] else p)\<rparr>)"
proof -
  from assms obtain p' where p: "p = CHR ''/'' # p'"
    by (cases p) (auto simp: plainPath_def HasPrefix_def)
  have star: "p \<noteq> ''*''" using p by simp
  have l: "\<not> (p \<noteq> [] \<and> last p = CHR ''?'' \<and> count_list p (CHR ''?'') = 1)"
    using assms by (auto simp: plainPath_def)
  show ?thesis
    using assms star l
    by (simp add: parse_def plainPath_def p getScheme_slash Cut_absent ToLower_def
        setPath_plain emptyURL_def HasPrefix_def)
qed

lemma Parse_plain:
  assumes "plainPath p"
  shows "Parse parseAuthority p
         = Inr (emptyURL\<lparr>Path := p, RawPath := (if p = escape p encodePath then [] else p)\<rparr>)"
  using assms by (simp add: Parse_def Cut_absent plainPath_def parse_plain)


lemma isSchemeByte_question: "isSchemeByte c \<Longrightarrow> c \<noteq> CHR ''?''"
  by (auto simp: isSchemeByte_def isAlpha_def isDigit_def within_def)

lemma getSchemeFrom_rest:
  assumes "getSchemeFrom raw i cs = Inr (scheme, rest)"
    and "cs = drop i raw" and "list_all isSchemeByte (take i raw)"
  shows "rest = raw \<or> (\<exists>j. j < length raw \<and> list_all isSchemeByte (take j raw)
           \<and> raw ! j = CHR '':'' \<and> rest = drop (Suc j) raw)"
  using assms
proof (induction cs arbitrary: i)
  case Nil
  then show ?case by simp
next
  case (Cons c cs)
  from Cons.prems(2) have i: "i < length raw" and c: "raw ! i = c" and cs: "cs = drop (Suc i) raw"
    by (metis drop_eq_Nil list.distinct(1) not_le_imp_less,
        metis Cons.prems(2) drop_eq_Nil2 hd_drop_conv_nth list.sel(1) list.distinct(1) not_le_imp_less,
        metis Cons.prems(2) drop_Suc list.sel(3) tl_drop)
  have t: "take (Suc i) raw = take i raw @ [c]"
    using i c by (simp add: take_Suc_conv_app_nth)
  show ?case
  proof (cases "isSchemeByte c")
    case True
    then have nc: "c \<noteq> CHR '':''"
      by (auto simp: isSchemeByte_def isAlpha_def isDigit_def within_def)
    have all: "list_all isSchemeByte (take (Suc i) raw)"
      using Cons.prems(3) True by (simp add: t)
    show ?thesis
    proof (cases "isAlpha c \<or> i \<noteq> 0")
      case True
      with \<open>isSchemeByte c\<close> Cons.prems(1) have "getSchemeFrom raw (Suc i) cs = Inr (scheme, rest)"
        by (auto simp: isSchemeByte_def split: if_splits)
      from Cons.IH [OF this cs all] show ?thesis .
    next
      case False
      with \<open>isSchemeByte c\<close> Cons.prems(1) have "rest = raw"
        by (auto simp: isSchemeByte_def split: if_splits)
      then show ?thesis by simp
    qed
  next
    case False
    then have na: "\<not> isAlpha c" "\<not> (isDigit c \<or> c = CHR ''+'' \<or> c = CHR ''-'' \<or> c = CHR ''.'')"
      by (auto simp: isSchemeByte_def)
    show ?thesis
    proof (cases "c = CHR '':''")
      case True
      with na Cons.prems(1) have "i \<noteq> 0 \<and> rest = drop (Suc i) raw"
        by (auto split: if_splits)
      with i c True Cons.prems(3) show ?thesis by blast
    next
      case False
      with na Cons.prems(1) have "rest = raw" by auto
      then show ?thesis by simp
    qed
  qed
qed

lemma dropWhile_drop_all:
  assumes "j < length raw" "list_all P (take (Suc j) raw)"
  shows "dropWhile P (drop (Suc j) raw) = dropWhile P raw"
proof -
  have "raw = take (Suc j) raw @ drop (Suc j) raw" by simp
  then have "dropWhile P raw = dropWhile P (take (Suc j) raw @ drop (Suc j) raw)" by simp
  also have "\<dots> = dropWhile P (drop (Suc j) raw)"
    using assms(2) by (simp add: dropWhile_append2 list_all_iff del: append_take_drop_id)
  finally show ?thesis by simp
qed

lemma getScheme_afterQuestion:
  assumes "getScheme raw = Inr (scheme, rest)"
  shows "afterQuestion rest = afterQuestion raw"
proof -
  from assms have "getSchemeFrom raw 0 raw = Inr (scheme, rest)" by (simp add: getScheme_def)
  from getSchemeFrom_rest [OF this] consider "rest = raw"
    | j where "j < length raw" "list_all isSchemeByte (take j raw)" "raw ! j = CHR '':''"
        "rest = drop (Suc j) raw"
    by auto
  then show ?thesis
  proof cases
    case 1
    then show ?thesis by simp
  next
    case 2
    have "list_all (\<lambda>c. c \<noteq> CHR ''?'') (take (Suc j) raw)"
      using 2(1,2,3) by (auto simp: take_Suc_conv_app_nth list_all_iff dest: isSchemeByte_question)
    from dropWhile_drop_all [OF 2(1) this] 2(4) show ?thesis
      by (simp add: afterQuestion_def)
  qed
qed

lemma setPath_RawQuery: "setPath u p = Inr u' \<Longrightarrow> RawQuery u' = RawQuery u \<and> ForceQuery u' = ForceQuery u"
  by (auto simp: setPath_def split: sum.splits)

lemma setFragment_RawQuery:
  "setFragment u f = Inr u' \<Longrightarrow> RawQuery u' = RawQuery u \<and> ForceQuery u' = ForceQuery u"
  by (auto simp: setFragment_def split: sum.splits)

lemma afterQuestion_forced:
  assumes "rest \<noteq> []" "last rest = CHR ''?''" "count_list rest (CHR ''?'') = 1"
  shows "afterQuestion rest = []"
proof -
  have r: "rest = butlast rest @ [CHR ''?'']" using assms(1,2) by (metis append_butlast_last_id)
  then have "count_list rest (CHR ''?'') = count_list (butlast rest) (CHR ''?'') + 1"
    by (metis count_list_append count_list.simps add.right_neutral Suc_eq_plus1 add_Suc_right)
  with assms(3) have "count_list (butlast rest) (CHR ''?'') = 0" by simp
  then have "CHR ''?'' \<notin> set (butlast rest)" by (simp add: count_list_0_iff)
  then have "dropWhile (\<lambda>c. c \<noteq> CHR ''?'') (butlast rest @ [CHR ''?'']) = [CHR ''?'']"
    by (subst dropWhile_append2) auto
  with r show ?thesis by (simp add: afterQuestion_def)
qed

lemma afterQuestion_Cut: "fst (snd (Cut s (CHR ''?''))) = afterQuestion s"
proof (cases "CHR ''?'' \<in> set s")
  case True
  then show ?thesis by (simp add: Cut_def afterQuestion_def)
next
  case False
  then have dw: "dropWhile (\<lambda>c. c \<noteq> CHR ''?'') s = []"
    by (induction s) auto
  show ?thesis by (simp add: Cut_def afterQuestion_def dw False)
qed

lemma parse_RawQuery:
  assumes "parse parseAuthority raw = Inr u"
  shows "RawQuery u = afterQuestion raw"
proof (cases "raw = ''*''")
  case True
  with assms show ?thesis
    by (auto simp: parse_def emptyURL_def afterQuestion_def split: if_splits)
next
  case False
  from assms have ctl: "\<not> stringContainsCTLByte raw"
    by (auto simp: parse_def split: if_splits)
  from assms False ctl obtain scheme rest0 where g: "getScheme raw = Inr (scheme, rest0)"
    by (cases "getScheme raw") (auto simp: parse_def)
  have a: "afterQuestion rest0 = afterQuestion raw"
    using g by (rule getScheme_afterQuestion)
  define forced where
    "forced = (rest0 \<noteq> [] \<and> last rest0 = CHR ''?'' \<and> count_list rest0 (CHR ''?'') = 1)"
  have f: "forced \<Longrightarrow> afterQuestion rest0 = []"
    unfolding forced_def using afterQuestion_forced by blast
  obtain before after found where c: "Cut rest0 (CHR ''?'') = (before, after, found)"
    by (cases "Cut rest0 (CHR ''?'')") auto
  then have c': "after = afterQuestion rest0" using afterQuestion_Cut [of rest0] by simp
  show ?thesis
  proof (cases forced)
    case True
    with assms False ctl g f a show ?thesis
      unfolding forced_def
      by (auto simp: parse_def Let_def emptyURL_def split: if_splits prod.splits sum.splits
          dest!: setPath_RawQuery)
  next
    case nf: False
    with assms False ctl g c c' a show ?thesis
      unfolding forced_def
      by (auto simp: parse_def Let_def emptyURL_def split: if_splits prod.splits sum.splits
          dest!: setPath_RawQuery)
  qed
qed

lemma Parse_RawQuery:
  assumes "Parse parseAuthority raw = Inr u"
  shows "RawQuery u = afterQuestion (fst (Cut raw (CHR ''#'')))"
  using assms
  by (auto simp: Parse_def split: prod.splits sum.splits if_splits
      dest: parse_RawQuery dest!: setFragment_RawQuery)

lemma unescape_query_wellEscaped:
  "(\<exists>t. unescape s encodeQueryComponent = Inr t) \<longleftrightarrow> wellEscaped s"
proof (induction s rule: wellEscaped.induct)
  case 1
  show ?case by simp
next
  case (2 c s)
  show ?case
  proof (cases "c = CHR ''%''")
    case True
    show ?thesis
    proof (cases s)
      case Nil
      with True show ?thesis by simp
    next
      case (Cons h1 s1)
      show ?thesis
      proof (cases s1)
        case Nil
        with True Cons show ?thesis by simp
      next
        case (Cons h2 s')
        with True \<open>s = h1 # s1\<close> 2(1) [OF True \<open>s = h1 # s1\<close> Cons] show ?thesis
          by (auto split: sum.splits)
      qed
    qed
  next
    case False
    with 2(2) [OF False] show ?thesis
      by (auto split: sum.splits)
  qed
qed

lemma QueryUnescape_wellEscaped: "(\<exists>t. QueryUnescape s = Inr t) \<longleftrightarrow> wellEscaped s"
  unfolding QueryUnescape_def by (rule unescape_query_wellEscaped)

lemma unescape_query_err:
  "unescape s encodeQueryComponent = Inl e \<Longrightarrow> \<exists>t. e = EscapeError t"
proof (induction s rule: wellEscaped.induct)
  case 1
  then show ?case by simp
next
  case (2 c s)
  show ?case
  proof (cases "c = CHR ''%''")
    case True
    show ?thesis
    proof (cases s)
      case Nil
      with True 2(3) show ?thesis by auto
    next
      case (Cons h1 s1)
      show ?thesis
      proof (cases s1)
        case Nil
        with True Cons 2(3) show ?thesis by auto
      next
        case (Cons h2 s')
        with True \<open>s = h1 # s1\<close> 2(1) [OF True \<open>s = h1 # s1\<close> Cons] 2(3) show ?thesis
          by (auto split: sum.splits if_splits)
      qed
    qed
  next
    case False
    with 2(2) [OF False] 2(3) show ?thesis
      by (auto split: sum.splits if_splits)
  qed
qed

lemma queryValues_malformed:
  assumes "(k, v) \<in> set query" "\<not> wellEscaped v"
  shows "\<exists>t. queryValues vals query = Inl (EscapeError t)"
  using assms
proof (induction query arbitrary: vals)
  case Nil
  then show ?case by simp
next
  case (Cons kv query)
  obtain k' v' where kv: "kv = (k', v')" by (cases kv)
  show ?case
  proof (cases "QueryUnescape v'")
    case (Inl e)
    then obtain t where "e = EscapeError t"
      using unescape_query_err by (auto simp: QueryUnescape_def)
    with Inl kv show ?thesis by simp
  next
    case (Inr v2)
    then have "wellEscaped v'" using QueryUnescape_wellEscaped by blast
    with Cons.prems kv have "(k, v) \<in> set query" by auto
    from Cons.IH [OF this Cons.prems(2)] Inr kv show ?thesis by simp
  qed
qed

lemma rebuildURL_Nil: "rebuildURL path [] = Inr (emptyURL\<lparr>Path := path\<rparr>)"
  by (simp add: rebuildURL_def)

lemma plainPath_foo_bar: "plainPath ''/foo/bar''"
  by (simp add: plainPath_def HasPrefix_def stringContainsCTLByte_def)

section \<open>An event without query parameters\<close>

text \<open>
  Claim C6, as stated, fails for \<open>buildURL\<close>: the path is parsed as a whole URL, so a \<open>?\<close> in
  it starts a query. The path \<open>/foo?x=1\<close> with an empty query map gives the raw query
  \<open>x=1\<close> and the path \<open>/foo\<close>.
\<close>

theorem empty_query_counterexample:
  "buildURL rejectAuthority ''/foo?x=1'' []
     = Inr (emptyURL\<lparr>Path := ''/foo'', RawQuery := ''x=1''\<rparr>)
   \<and> RawQuery (emptyURL\<lparr>Path := ''/foo'', RawQuery := ''x=1''\<rparr>) \<noteq> []
   \<and> Path (emptyURL\<lparr>Path := ''/foo'', RawQuery := ''x=1''\<rparr>) \<noteq> ''/foo?x=1''"
proof -
  have "Parse rejectAuthority ''/foo?x=1''
        = Inr (emptyURL\<lparr>Path := ''/foo'', RawQuery := ''x=1''\<rparr>)"
    by code_simp
  then show ?thesis by (simp add: buildURL_def)
qed

text \<open>
  Claim C6, amended. For an empty query map \<open>buildURL\<close> returns \<open>url.Parse\<close> of the path
  string alone, nothing appended. If the path has no \<open>?\<close>, a URL that parses has an empty
  raw query. If the path is plain (one leading slash, no escape, no \<open>?\<close>, no \<open>#\<close>, no control
  byte) parsing succeeds, the raw query is empty and the path component is the event's
  path unchanged. The revision \<open>alb.go\<close> sets the path component to the event's path and
  leaves the raw query empty for every path.
\<close>

theorem empty_query_url:
  "buildURL parseAuthority path [] = Parse parseAuthority path
   \<and> (\<forall>u. Parse parseAuthority path = Inr u \<and> CHR ''?'' \<notin> set path \<longrightarrow> RawQuery u = [])
   \<and> (plainPath path \<longrightarrow>
        (\<exists>u. buildURL parseAuthority path [] = Inr u
              \<and> Path u = path \<and> RawQuery u = [] \<and> \<not> ForceQuery u))
   \<and> rebuildURL path [] = Inr (emptyURL\<lparr>Path := path\<rparr>)"
proof (intro conjI)
  show "buildURL parseAuthority path [] = Parse parseAuthority path"
    by (simp add: buildURL_def)
  show "\<forall>u. Parse parseAuthority path = Inr u \<and> CHR ''?'' \<notin> set path \<longrightarrow> RawQuery u = []"
  proof (intro allI impI)
    fix u assume a: "Parse parseAuthority path = Inr u \<and> CHR ''?'' \<notin> set path"
    then have "CHR ''?'' \<notin> set (fst (Cut path (CHR ''#'')))"
      by (auto simp: Cut_def dest: set_takeWhileD)
    then have "dropWhile (\<lambda>c. c \<noteq> CHR ''?'') (fst (Cut path (CHR ''#''))) = []"
      by (induction "fst (Cut path (CHR ''#''))") auto
    then have "afterQuestion (fst (Cut path (CHR ''#''))) = []"
      by (simp only: afterQuestion_def drop_Nil)
    with a Parse_RawQuery show "RawQuery u = []" by metis
  qed
  show "plainPath path \<longrightarrow>
        (\<exists>u. buildURL parseAuthority path [] = Inr u
              \<and> Path u = path \<and> RawQuery u = [] \<and> \<not> ForceQuery u)"
    by (simp add: buildURL_def Parse_plain emptyURL_def)
  show "rebuildURL path [] = Inr (emptyURL\<lparr>Path := path\<rparr>)"
    by (rule rebuildURL_Nil)
qed

theorem empty_query_url_witness:
  "plainPath ''/foo/bar''
   \<and> CHR ''?'' \<notin> set ''/foo/bar''
   \<and> buildURL rejectAuthority ''/foo/bar'' [] = Inr (emptyURL\<lparr>Path := ''/foo/bar''\<rparr>)
   \<and> (\<exists>u. buildURL rejectAuthority ''/foo/bar'' [] = Inr u
          \<and> Path u = ''/foo/bar'' \<and> RawQuery u = [] \<and> \<not> ForceQuery u)"
proof -
  have p: "Parse rejectAuthority ''/foo/bar'' = Inr (emptyURL\<lparr>Path := ''/foo/bar''\<rparr>)"
    by code_simp
  note t = empty_query_url [of rejectAuthority "''/foo/bar''"]
  from t have "buildURL rejectAuthority ''/foo/bar'' [] = Parse rejectAuthority ''/foo/bar''"
    by (rule conjunct1)
  with p have 1: "buildURL rejectAuthority ''/foo/bar'' [] = Inr (emptyURL\<lparr>Path := ''/foo/bar''\<rparr>)"
    by simp
  from t plainPath_foo_bar
  have 2: "\<exists>u. buildURL rejectAuthority ''/foo/bar'' [] = Inr u
          \<and> Path u = ''/foo/bar'' \<and> RawQuery u = [] \<and> \<not> ForceQuery u"
    by blast
  have 3: "CHR ''?'' \<notin> set ''/foo/bar''" by simp
  from plainPath_foo_bar 1 2 3 show ?thesis by blast
qed

section \<open>Malformed escapes in query values\<close>

lemma Parse_malformed:
  "Parse rejectAuthority ''/foo?a=%zz'' = Inr (emptyURL\<lparr>Path := ''/foo'', RawQuery := ''a=%zz''\<rparr>)"
  by code_simp

lemma malformedServed_eq:
  "newRequest () malformedRequest (emptyURL\<lparr>Path := ''/foo'', RawQuery := ''a=%zz''\<rparr>)
     \<lparr>r_Body := req_Body malformedRequest,
        r_ContentLength := int (length (req_Body malformedRequest))\<rparr>
   = malformedServed"
  by code_simp

lemma malformedRequest_plain: "\<not> req_BodyEncoded malformedRequest"
  by (simp add: malformedRequest_def)

text \<open>
  Claim C8, as stated, fails for \<open>part_000\<close>: \<open>url.Parse\<close> does not look into the escapes of
  the query. With the path \<open>/foo\<close> and the query value \<open>%zz\<close> the handler is served and a
  response is returned.
\<close>

theorem malformed_query_counterexample:
  "(''a'', ''%zz'') \<in> set (req_Query malformedRequest)
   \<and> QueryUnescape ''%zz'' = Inl (EscapeError ''%zz'')
   \<and> Run rejectAuthority (fixedHandler helloRecorder) () malformedRequest
     = (Return (Inr helloResponse), [malformedServed])"
proof -
  have 1: "(''a'', ''%zz'') \<in> set (req_Query malformedRequest)"
    by (simp add: malformedRequest_def)
  have 2: "QueryUnescape ''%zz'' = Inl (EscapeError ''%zz'')"
    by code_simp
  have "buildURL rejectAuthority (req_Path malformedRequest) (req_Query malformedRequest)
        = Inr (emptyURL\<lparr>Path := ''/foo'', RawQuery := ''a=%zz''\<rparr>)"
    by (simp add: buildURL_def malformedRequest_def Parse_malformed)
  then have 3: "Run rejectAuthority (fixedHandler helloRecorder) () malformedRequest
     = (Return (Inr helloResponse), [malformedServed])"
    by (simp add: Run_def decodeBody_plain [OF malformedRequest_plain] malformedServed_eq
        serve_hello)
  from 1 2 3 show ?thesis by blast
qed

text \<open>
  Claim C8, amended. In the revision \<open>alb.go\<close>, an event with a query value that is not
  correctly percent-escaped (which is when \<open>QueryUnescape\<close> rejects it) makes \<open>Run\<close> return an
  \<open>EscapeError\<close>, no response, with no request handed to the handler. In \<open>part_000\<close> the URL
  is always \<open>url.Parse\<close> of the path or of the assembled string, and when that parse fails
  \<open>Run\<close> returns its error, no response, with no request handed to the handler.
\<close>

theorem malformed_query_escape:
  "(\<forall>k v. (k, v) \<in> set (req_Query req) \<and> \<not> wellEscaped v
       \<longrightarrow> (\<exists>t. Run_alb h ctx req = (Return (Inl (EscapeError t)), [])))
   \<and> (wellEscaped v \<longleftrightarrow> (\<exists>t. QueryUnescape v = Inr t))
   \<and> buildURL parseAuthority (req_Path req) (req_Query req)
     = Parse parseAuthority
         (if length (req_Query req) = 0 then req_Path req
          else writePairs (req_Path req @ ''?'') 0 (req_Query req))
   \<and> (\<forall>e. Parse parseAuthority
               (if length (req_Query req) = 0 then req_Path req
                else writePairs (req_Path req @ ''?'') 0 (req_Query req)) = Inl e
        \<longrightarrow> Run parseAuthority h ctx req = (Return (Inl e), []))"
proof (intro conjI)
  show "\<forall>k v. (k, v) \<in> set (req_Query req) \<and> \<not> wellEscaped v
       \<longrightarrow> (\<exists>t. Run_alb h ctx req = (Return (Inl (EscapeError t)), []))"
  proof (intro allI impI)
    fix k v assume a: "(k, v) \<in> set (req_Query req) \<and> \<not> wellEscaped v"
    then have ne: "length (req_Query req) > 0" by auto
    from a obtain t where "queryValues [] (req_Query req) = Inl (EscapeError t)"
      using queryValues_malformed by blast
    with ne have "rebuildURL (req_Path req) (req_Query req) = Inl (EscapeError t)"
      by (simp add: rebuildURL_def)
    then show "\<exists>t. Run_alb h ctx req = (Return (Inl (EscapeError t)), [])"
      by (simp add: Run_alb_def)
  qed
  show "wellEscaped v \<longleftrightarrow> (\<exists>t. QueryUnescape v = Inr t)"
    by (simp add: QueryUnescape_wellEscaped)
  show "buildURL parseAuthority (req_Path req) (req_Query req)
     = Parse parseAuthority
         (if length (req_Query req) = 0 then req_Path req
          else writePairs (req_Path req @ ''?'') 0 (req_Query req))"
    by (simp add: buildURL_def)
  show "\<forall>e. Parse parseAuthority
               (if length (req_Query req) = 0 then req_Path req
                else writePairs (req_Path req @ ''?'') 0 (req_Query req)) = Inl e
        \<longrightarrow> Run parseAuthority h ctx req = (Return (Inl e), [])"
    by (simp add: Run_def buildURL_def)
qed

theorem malformed_query_escape_witness:
  "(''a'', ''%zz'') \<in> set (req_Query malformedRequest)
   \<and> \<not> wellEscaped ''%zz''
   \<and> Run_alb (fixedHandler helloRecorder) () malformedRequest
     = (Return (Inl (EscapeError ''%zz'')), [])
   \<and> Parse rejectAuthority
        (if length (req_Query badPathRequest) = 0 then req_Path badPathRequest
         else writePairs (req_Path badPathRequest @ ''?'') 0 (req_Query badPathRequest))
     = Inl (URLError ''parse'' ''/%zz'' (EscapeError ''%zz''))
   \<and> Run rejectAuthority (fixedHandler helloRecorder) () badPathRequest
     = (Return (Inl (URLError ''parse'' ''/%zz'' (EscapeError ''%zz''))), [])"
proof -
  have 1: "(''a'', ''%zz'') \<in> set (req_Query malformedRequest)"
    by (simp add: malformedRequest_def)
  have 2: "\<not> wellEscaped ''%zz''"
    by (simp add: ishex_def within_def)
  from 1 2 obtain t where
    t: "Run_alb (fixedHandler helloRecorder) () malformedRequest = (Return (Inl (EscapeError t)), [])"
    using malformed_query_escape [where req = malformedRequest
        and h = "fixedHandler helloRecorder" and ctx = "()"]
    by blast
  have "queryValues [] (req_Query malformedRequest) = Inl (EscapeError ''%zz'')"
    by (simp add: malformedRequest_def QueryUnescape_def ishex_def within_def)
  then have "Run_alb (fixedHandler helloRecorder) () malformedRequest
     = (Return (Inl (EscapeError ''%zz'')), [])"
    by (simp add: Run_alb_def rebuildURL_def malformedRequest_def)
  with t have 3: "Run_alb (fixedHandler helloRecorder) () malformedRequest
     = (Return (Inl (EscapeError ''%zz'')), [])"
    by simp
  have p: "Parse rejectAuthority ''/%zz'' = Inl (URLError ''parse'' ''/%zz'' (EscapeError ''%zz''))"
    by code_simp
  then have 4: "Parse rejectAuthority
        (if length (req_Query badPathRequest) = 0 then req_Path badPathRequest
         else writePairs (req_Path badPathRequest @ ''?'') 0 (req_Query badPathRequest))
     = Inl (URLError ''parse'' ''/%zz'' (EscapeError ''%zz''))"
    by (simp add: badPathRequest_def)
  with malformed_query_escape [where req = badPathRequest and parseAuthority = rejectAuthority
      and h = "fixedHandler helloRecorder" and ctx = "()"]
  have 5: "Run rejectAuthority (fixedHandler helloRecorder) () badPathRequest
     = (Return (Inl (URLError ''parse'' ''/%zz'' (EscapeError ''%zz''))), [])"
    by blast
  from 1 2 3 4 5 show ?thesis by blast
qed

section \<open>Escaping and unescaping query components\<close>

lemma and_15: "(x::nat) AND 15 = x mod 16"
proof -
  have "mask 4 = (15::nat)" by (simp add: mask_eq_exp_minus_1)
  then have "x AND 15 = take_bit 4 x" by (simp add: take_bit_eq_mask)
  then show ?thesis by (simp add: take_bit_eq_mod)
qed

lemma upperhex_all:
  "\<forall>n \<in> set [0..<16]. ishex (upperhex ! n) \<and> unhex (upperhex ! n) = n
      \<and> \<not> shouldEscape (upperhex ! n) encodeQueryComponent"
  by code_simp

lemma upperhex_nibble:
  assumes "n < 16"
  shows "ishex (upperhex ! n)" "unhex (upperhex ! n) = n"
    "\<not> shouldEscape (upperhex ! n) encodeQueryComponent"
  using assms upperhex_all by simp_all


lemma high_nibble: "drop_bit 4 (uint c) < 16"
  using uint_less [of c] by (simp add: drop_bit_eq_div)

lemma low_nibble: "uint c AND 15 < 16"
  by (simp add: and_15)



lemma shouldEscape_space: "shouldEscape (CHR '' '') encodeQueryComponent"
  by code_simp



lemma escape_query_bytes: "list_all queryByte (escape s encodeQueryComponent)"
  by (induction s) (auto simp: queryByte_def upperhex_nibble high_nibble low_nibble)

lemma unreserved_escape: "unreservedName s \<Longrightarrow> escape s encodeQueryComponent = s"
  by (induction s) (auto simp: unreservedName_def shouldEscape_space)


lemma ctl_enum:
  "\<forall>n \<in> set [0..<32]. \<not> queryByte (char_of (n::nat))"
  by code_simp

lemma del_not_queryByte: "\<not> queryByte (CHR 0x7F)"
  by code_simp

lemma ctl_not_queryByte:
  assumes "c < CHR '' '' \<or> c = CHR 0x7F"
  shows "\<not> queryByte c"
proof (cases "c = CHR 0x7F")
  case True
  then show ?thesis by (simp add: del_not_queryByte)
next
  case False
  with assms have "c < CHR '' ''" by simp
  then have "(of_char c :: nat) < 32" by (simp add: less_char_def)
  then have "(of_char c :: nat) \<in> set [0..<32]" by simp
  with ctl_enum have "\<not> queryByte (char_of (of_char c :: nat))" by blast
  then show ?thesis by simp
qed

lemma queryByte_not_delim:
  assumes "queryByte c"
  shows "c \<noteq> CHR ''&''" "c \<noteq> CHR ''=''" "c \<noteq> CHR ''#''" "c \<noteq> CHR ''?''"
    "\<not> (c < CHR '' '' \<or> c = CHR 0x7F)"
proof -
  have a: "\<not> queryByte (CHR ''&'')" "\<not> queryByte (CHR ''='')"
    "\<not> queryByte (CHR ''#'')" "\<not> queryByte (CHR ''?'')"
    by code_simp+
  from assms a show "c \<noteq> CHR ''&''" "c \<noteq> CHR ''=''" "c \<noteq> CHR ''#''" "c \<noteq> CHR ''?''"
    by auto
  from assms ctl_not_queryByte show "\<not> (c < CHR '' '' \<or> c = CHR 0x7F)" by blast
qed

lemma splitAmp_append:
  "CHR ''&'' \<notin> set p \<Longrightarrow> splitAmp cur (p @ s) = splitAmp (cur @ p) s"
  by (induction p arbitrary: cur) auto

lemma splitAmp_piece:
  assumes "CHR ''&'' \<notin> set p" "p \<noteq> []"
  shows "splitAmp [] (p @ CHR ''&'' # s) = p # splitAmp [] s"
    and "splitAmp [] p = [p]"
  using assms splitAmp_append [of p "[]" "CHR ''&'' # s"] splitAmp_append [of p "[]" "[]"]
  by simp_all

lemma Join_Cons: "Join (p # ps) sep = p @ concat (map (\<lambda>q. sep @ q) ps)"
  by (induction ps arbitrary: p) auto

lemma queryPairs_Join:
  assumes "\<forall>p \<in> set ps. p \<noteq> [] \<and> CHR ''&'' \<notin> set p"
  shows "queryPairs (Join ps ''&'') = ps"
  unfolding queryPairs_def using assms
proof (induction ps)
  case Nil
  show ?case by simp
next
  case (Cons p ps)
  show ?case
  proof (cases ps)
    case Nil
    with Cons.prems show ?thesis by (simp add: splitAmp_piece)
  next
    case (Cons p' ps')
    then have "Join (p # ps) ''&'' = p @ CHR ''&'' # Join ps ''&''" by simp
    with Cons.prems Cons.IH show ?thesis by (simp add: splitAmp_piece)
  qed
qed

lemma writePairs_later:
  "i \<noteq> 0 \<Longrightarrow> writePairs b i query = b @ concat (map (\<lambda>kv. ''&'' @ pair kv) query)"
  by (induction query arbitrary: b i) (auto simp: pair_def)

lemma writePairs_Join:
  "writePairs b 0 query = b @ Join (map pair query) ''&''"
proof (cases query)
  case Nil
  then show ?thesis by simp
next
  case (Cons kv query')
  obtain k v where kv: "kv = (k, v)" by (cases kv)
  have "writePairs b 0 query = writePairs (b @ pair kv) (Suc 0) query'"
    by (simp add: Cons kv pair_def)
  also have "\<dots> = b @ pair kv @ concat (map (\<lambda>kv. ''&'' @ pair kv) query')"
    by (simp add: writePairs_later)
  also have "\<dots> = b @ Join (map pair query) ''&''"
    by (simp add: Cons Join_Cons comp_def)
  finally show ?thesis .
qed


lemma set_Join_subset: "set (Join ps sep) \<subseteq> \<Union> (set ` set ps) \<union> set sep"
  by (induction ps sep rule: Join.induct) auto

lemma update_fresh: "k \<notin> fst ` set al \<Longrightarrow> AList.update k v al = al @ [(k, v)]"
  by (induction al) auto

lemma queryValues_distinct:
  assumes "queryValues acc query = Inr vals"
    and "distinct (map fst query)" and "fst ` set acc \<inter> fst ` set query = {}"
  shows "vals = acc @ map (\<lambda>(k, v). (k, [unescaped v])) query"
  using assms
proof (induction query arbitrary: acc)
  case Nil
  then show ?case by simp
next
  case (Cons kv query)
  obtain k v where kv: "kv = (k, v)" by (cases kv)
  from Cons.prems(1) kv obtain v2 where v2: "QueryUnescape v = Inr v2"
    and q: "queryValues (Set acc k v2) query = Inr vals"
    by (auto split: sum.splits)
  have fresh: "k \<notin> fst ` set acc" using Cons.prems(3) kv by auto
  then have s: "Set acc k v2 = acc @ [(k, [v2])]" by (simp add: Set_def update_fresh)
  have d: "distinct (map fst query)" using Cons.prems(2) by simp
  have "fst ` set (acc @ [(k, [v2])]) \<inter> fst ` set query = {}"
    using Cons.prems(2,3) kv by auto
  from Cons.IH [OF q [unfolded s] d this] v2 kv show ?case
    by (simp add: unescaped_def)
qed


lemma encodeValues_single:
  "encodeValues buf ke [v] = (if buf = [] then [] else buf @ ''&'') @ ke @ ''='' @ QueryEscape v"
  by simp

lemma Encode_foldl:
  assumes "\<forall>k \<in> set ks. \<exists>v. map_of vals k = Some [v] \<and> piece k = QueryEscape k @ ''='' @ QueryEscape v"
  shows "foldl (\<lambda>buf k. encodeValues buf (QueryEscape k)
                    (case map_of vals k of None \<Rightarrow> [] | Some vs \<Rightarrow> vs)) buf ks
         = (if buf = [] then Join (map piece ks) ''&''
            else buf @ concat (map (\<lambda>k. ''&'' @ piece k) ks))"
  using assms
proof (induction ks arbitrary: buf)
  case Nil
  show ?case by simp
next
  case (Cons k ks)
  from Cons.prems obtain v where v: "map_of vals k = Some [v]"
    "piece k = QueryEscape k @ ''='' @ QueryEscape v" by auto
  have rest: "\<forall>k \<in> set ks. \<exists>v. map_of vals k = Some [v] \<and> piece k = QueryEscape k @ ''='' @ QueryEscape v"
    using Cons.prems by simp
  have ne: "(if buf = [] then [] else buf @ ''&'') @ piece k \<noteq> []"
    by (simp add: v(2))
  show ?case
    using Cons.IH [OF rest, of "(if buf = [] then [] else buf @ ''&'') @ piece k"] v ne
    by (cases "buf = []") (simp_all add: Join_Cons comp_def del: Join.simps)
qed

section \<open>The query string of both revisions\<close>

lemma queryByte_noDelimiter:
  assumes "list_all queryByte s"
  shows "noDelimiter s"
proof -
  have "CHR ''&'' \<notin> set s"
  proof
    assume "CHR ''&'' \<in> set s"
    with assms have "queryByte (CHR ''&'')" by (simp add: list_all_iff)
    with queryByte_not_delim(1) show False by blast
  qed
  moreover have "CHR ''#'' \<notin> set s"
  proof
    assume "CHR ''#'' \<in> set s"
    with assms have "queryByte (CHR ''#'')" by (simp add: list_all_iff)
    with queryByte_not_delim(3) show False by blast
  qed
  ultimately show ?thesis by (simp add: noDelimiter_def)
qed

lemma escapedComponent_noDelimiter: "escapedComponent s \<Longrightarrow> noDelimiter s"
  by (simp add: escapedComponent_def queryByte_noDelimiter)

lemma pair_noDelimiter:
  "noDelimiter k \<Longrightarrow> noDelimiter v \<Longrightarrow> noDelimiter (pair (k, v))"
  by (auto simp: noDelimiter_def pair_def)

lemma pair_nonempty: "pair kv \<noteq> []"
  by (simp add: pair_def)

lemma pairs_noDelimiter:
  assumes "\<forall>(k, v) \<in> set query. noDelimiter k \<and> noDelimiter v"
  shows "\<forall>p \<in> set (map pair query). noDelimiter p \<and> p \<noteq> []"
proof
  fix p assume "p \<in> set (map pair query)"
  then obtain kv where kv: "kv \<in> set query" "p = pair kv" by auto
  obtain k v where "kv = (k, v)" by (cases kv)
  with kv assms have "noDelimiter k" "noDelimiter v" "p = pair (k, v)" by auto
  then show "noDelimiter p \<and> p \<noteq> []"
    using pair_noDelimiter pair_nonempty by simp
qed

lemma Join_pairs_hash:
  assumes "\<forall>p \<in> set ps. CHR ''#'' \<notin> set p"
  shows "CHR ''#'' \<notin> set (Join ps ''&'')"
  using assms set_Join_subset [of ps "''&''"] by auto

lemma afterQuestion_append:
  "CHR ''?'' \<notin> set a \<Longrightarrow> afterQuestion (a @ CHR ''?'' # b) = b"
  by (induction a) (auto simp: afterQuestion_def)

lemma afterQuestion_absent: "CHR ''?'' \<notin> set a \<Longrightarrow> afterQuestion a = []"
  by (induction a) (auto simp: afterQuestion_def)

lemma buildURL_RawQuery:
  assumes "CHR ''?'' \<notin> set path" "CHR ''#'' \<notin> set path"
    and "\<forall>(k, v) \<in> set query. noDelimiter k \<and> noDelimiter v"
    and "buildURL parseAuthority path query = Inr u"
  shows "RawQuery u = Join (map pair query) ''&''"
proof (cases "query = []")
  case True
  with assms(4) have "Parse parseAuthority path = Inr u" by (simp add: buildURL_def)
  then have "RawQuery u = afterQuestion (fst (Cut path (CHR ''#'')))" by (rule Parse_RawQuery)
  with assms(1,2) True show ?thesis by (simp add: Cut_absent afterQuestion_absent)
next
  case False
  let ?J = "Join (map pair query) ''&''"
  have raw: "writePairs (path @ ''?'') 0 query = path @ CHR ''?'' # ?J"
    by (simp add: writePairs_Join)
  have "\<forall>p \<in> set (map pair query). CHR ''#'' \<notin> set p"
    using pairs_noDelimiter [OF assms(3)] by (simp add: noDelimiter_def)
  then have "CHR ''#'' \<notin> set ?J" by (rule Join_pairs_hash)
  with assms(2) have h: "CHR ''#'' \<notin> set (path @ CHR ''?'' # ?J)" by simp
  from assms(4) False have "Parse parseAuthority (path @ CHR ''?'' # ?J) = Inr u"
    by (simp add: buildURL_def raw)
  then have "RawQuery u = afterQuestion (fst (Cut (path @ CHR ''?'' # ?J) (CHR ''#'')))"
    by (rule Parse_RawQuery)
  with assms(1) show ?thesis
    by (simp add: Cut_absent [OF h] afterQuestion_append)
qed

lemma queryPairs_pairs:
  assumes "\<forall>(k, v) \<in> set query. noDelimiter k \<and> noDelimiter v"
  shows "queryPairs (Join (map pair query) ''&'') = map pair query"
proof (rule queryPairs_Join)
  show "\<forall>p \<in> set (map pair query). p \<noteq> [] \<and> CHR ''&'' \<notin> set p"
    using pairs_noDelimiter [OF assms] by (simp add: noDelimiter_def)
qed

lemma QueryEscape_bytes: "list_all queryByte (QueryEscape s)"
  by (simp add: QueryEscape_def escape_query_bytes)


lemma canonicalPair_noDelimiter: "noDelimiter (canonicalPair kv)"
  unfolding canonicalPair_def
  by (rule pair_noDelimiter) (rule queryByte_noDelimiter, rule QueryEscape_bytes)+

lemma canonicalPair_nonempty: "canonicalPair kv \<noteq> []"
  by (simp add: canonicalPair_def pair_nonempty)

lemma Encode_queryValues:
  assumes "queryValues [] query = Inr vals" and "distinct (map fst query)"
  shows "Encode vals
         = Join (map (\<lambda>k. canonicalPair (k, the (map_of query k))) (sort (map fst query))) ''&''"
proof (cases "query = []")
  case True
  with assms(1) show ?thesis by (simp add: Encode_def)
next
  case False
  have vals: "vals = map (\<lambda>(k, v). (k, [unescaped v])) query"
    using queryValues_distinct [OF assms(1,2)] by simp
  have keys: "map fst vals = map fst query"
    by (simp add: vals comp_def case_prod_unfold)
  have ne: "length vals \<noteq> 0" using False vals by simp
  let ?piece = "\<lambda>k. canonicalPair (k, the (map_of query k))"
  have "\<forall>k \<in> set (sort (map fst query)).
          \<exists>v. map_of vals k = Some [v] \<and> ?piece k = QueryEscape k @ ''='' @ QueryEscape v"
  proof
    fix k assume "k \<in> set (sort (map fst query))"
    then have "k \<in> fst ` set query" by simp
    then obtain v where kv: "(k, v) \<in> set query" by auto
    with assms(2) have q: "map_of query k = Some v" by simp
    have "distinct (map fst vals)" using assms(2) keys by simp
    moreover have "(k, [unescaped v]) \<in> set vals"
    proof -
      have "(\<lambda>(k, v). (k, [unescaped v])) (k, v) \<in> set vals"
        unfolding vals using kv by (rule imageI [of _ "set query", folded set_map])
      then show ?thesis by simp
    qed
    ultimately have "map_of vals k = Some [unescaped v]" by simp
    with q show "\<exists>v. map_of vals k = Some [v] \<and> ?piece k = QueryEscape k @ ''='' @ QueryEscape v"
      by (simp add: canonicalPair_def pair_def)
  qed
  from Encode_foldl [of "sort (map fst query)" vals ?piece "[]", OF this] ne keys
  show ?thesis by (simp add: Encode_def)
qed

lemma rebuildURL_pairs:
  assumes "rebuildURL path query = Inr u" and "distinct (map fst query)"
  shows "Path u = path"
    and "mset (queryPairs (RawQuery u)) = mset (map canonicalPair query)"
proof -
  show "Path u = path"
    using assms(1) by (auto simp: rebuildURL_def Let_def emptyURL_def split: if_splits sum.splits)
  show "mset (queryPairs (RawQuery u)) = mset (map canonicalPair query)"
  proof (cases "query = []")
    case True
    with assms(1) show ?thesis
      by (auto simp: rebuildURL_def emptyURL_def queryPairs_def)
  next
    case False
    with assms(1) obtain vals where v: "queryValues [] query = Inr vals"
      and u: "RawQuery u = Encode vals"
      by (auto simp: rebuildURL_def Let_def split: sum.splits)
    let ?piece = "\<lambda>k. canonicalPair (k, the (map_of query k))"
    let ?ps = "map ?piece (sort (map fst query))"
    have "\<forall>p \<in> set ?ps. p \<noteq> [] \<and> CHR ''&'' \<notin> set p"
    proof
      fix p assume "p \<in> set ?ps"
      then obtain k where "p = ?piece k" by auto
      then show "p \<noteq> [] \<and> CHR ''&'' \<notin> set p"
        using canonicalPair_noDelimiter [of "(k, the (map_of query k))"]
          canonicalPair_nonempty [of "(k, the (map_of query k))"]
        by (simp add: noDelimiter_def)
    qed
    then have "queryPairs (Join ?ps ''&'') = ?ps" by (rule queryPairs_Join)
    then have "queryPairs (RawQuery u) = ?ps"
      by (simp only: u Encode_queryValues [OF v assms(2)])
    moreover have "mset ?ps = mset (map ?piece (map fst query))"
      by (simp only: mset_map mset_sort)
    moreover have "map ?piece (map fst query) = map canonicalPair query"
    proof -
      have "?piece (fst kv) = canonicalPair kv" if "kv \<in> set query" for kv
      proof -
        obtain k v where kv: "kv = (k, v)" by (cases kv)
        with that assms(2) have "map_of query k = Some v" by simp
        with kv show ?thesis by simp
      qed
      then show ?thesis by (simp add: comp_def)
    qed
    ultimately show ?thesis by (simp only:)
  qed
qed











lemma Parse_foo_x:
  "Parse rejectAuthority ''/foo?x?a=1'' = Inr (emptyURL\<lparr>Path := ''/foo'', RawQuery := ''x?a=1''\<rparr>)"
  by code_simp

lemma Parse_foo_bar_ab:
  "Parse rejectAuthority ''/foo/bar?a=1&b=2''
   = Inr (emptyURL\<lparr>Path := ''/foo/bar'', RawQuery := ''a=1&b=2''\<rparr>)"
  by code_simp

lemma noDelimiter_ab: "\<forall>(k, v) \<in> set abQuery. noDelimiter k \<and> noDelimiter v"
  by (simp add: abQuery_def noDelimiter_def)



text \<open>
  Claim C5, as stated, fails for \<open>buildURL\<close>: a \<open>?\<close> in the path starts the query early. With
  the path \<open>/foo?x\<close> and the query map of \<open>a\<close> to \<open>1\<close>, reconstruction succeeds and the raw
  query is \<open>x?a=1\<close>, whose only pair is not \<open>a=1\<close>.
\<close>

theorem query_pairs_counterexample:
  "buildURL rejectAuthority ''/foo?x'' [(''a'', ''1'')]
     = Inr (emptyURL\<lparr>Path := ''/foo'', RawQuery := ''x?a=1''\<rparr>)
   \<and> escapedComponent ''1''
   \<and> queryPairs (RawQuery (emptyURL\<lparr>Path := ''/foo'', RawQuery := ''x?a=1''\<rparr>)) = [''x?a=1'']
   \<and> map pair [(''a'', ''1'')] = [''a=1'']
   \<and> queryPairs (RawQuery (emptyURL\<lparr>Path := ''/foo'', RawQuery := ''x?a=1''\<rparr>))
       \<noteq> map pair [(''a'', ''1'')]"
proof -
  have 1: "buildURL rejectAuthority ''/foo?x'' [(''a'', ''1'')]
     = Inr (emptyURL\<lparr>Path := ''/foo'', RawQuery := ''x?a=1''\<rparr>)"
    by (simp add: buildURL_def Parse_foo_x)
  have 2: "escapedComponent ''1''" by code_simp
  have 3: "queryPairs (RawQuery (emptyURL\<lparr>Path := ''/foo'', RawQuery := ''x?a=1''\<rparr>)) = [''x?a=1'']"
    by (simp add: queryPairs_def emptyURL_def)
  have 4: "map pair [(''a'', ''1'')] = [''a=1'']" by (simp add: pair_def)
  from 3 4 have 5: "queryPairs (RawQuery (emptyURL\<lparr>Path := ''/foo'', RawQuery := ''x?a=1''\<rparr>))
       \<noteq> map pair [(''a'', ''1'')]"
    by simp
  from 1 2 3 4 5 show ?thesis by blast
qed

text \<open>
  Claim C5, amended. For every path without \<open>?\<close> and \<open>#\<close> and every query map whose names and
  values have no \<open>&\<close> and no \<open>#\<close> (as is the case when they are correctly pre-escaped), if
  \<open>buildURL\<close> succeeds, the pairs of the URL's raw query are exactly the pairs name=value of
  the map's entries, one for each entry, in the order in which the map was visited. In
  \<open>alb.go\<close>, for every path and every query map (of distinct names) on which
  reconstruction succeeds, the pairs of the raw query are, up to order, the canonical
  pairs of the entries, one for each. The path \<open>/foo/bar\<close> with \<open>a\<close> to \<open>1\<close> and \<open>b\<close> to \<open>2\<close> gives
  \<open>a=1\<close> and \<open>b=2\<close>.
\<close>

theorem query_pairs:
  "(CHR ''?'' \<notin> set path \<and> CHR ''#'' \<notin> set path
      \<and> (\<forall>(k, v) \<in> set query. noDelimiter k \<and> noDelimiter v)
      \<and> buildURL parseAuthority path query = Inr u
    \<longrightarrow> queryPairs (RawQuery u) = map pair query)
   \<and> (escapedComponent s \<longrightarrow> noDelimiter s)
   \<and> (distinct (map fst query) \<and> rebuildURL path query = Inr u'
    \<longrightarrow> mset (queryPairs (RawQuery u')) = mset (map canonicalPair query))"
proof (intro conjI impI)
  assume a: "CHR ''?'' \<notin> set path \<and> CHR ''#'' \<notin> set path
      \<and> (\<forall>(k, v) \<in> set query. noDelimiter k \<and> noDelimiter v)
      \<and> buildURL parseAuthority path query = Inr u"
  then have "RawQuery u = Join (map pair query) ''&''"
    using buildURL_RawQuery by blast
  with a show "queryPairs (RawQuery u) = map pair query"
    by (simp add: queryPairs_pairs)
next
  assume "escapedComponent s"
  then show "noDelimiter s" by (rule escapedComponent_noDelimiter)
next
  assume "distinct (map fst query) \<and> rebuildURL path query = Inr u'"
  then show "mset (queryPairs (RawQuery u')) = mset (map canonicalPair query)"
    using rebuildURL_pairs(2) by blast
qed

theorem query_pairs_witness:
  "CHR ''?'' \<notin> set ''/foo/bar'' \<and> CHR ''#'' \<notin> set ''/foo/bar''
   \<and> noDelimiter ''a'' \<and> noDelimiter ''1'' \<and> noDelimiter ''b'' \<and> noDelimiter ''2''
   \<and> buildURL rejectAuthority ''/foo/bar'' abQuery
     = Inr (emptyURL\<lparr>Path := ''/foo/bar'', RawQuery := ''a=1&b=2''\<rparr>)
   \<and> queryPairs ''a=1&b=2'' = [''a=1'', ''b=2'']
   \<and> distinct (map fst abQuery)
   \<and> rebuildURL ''/foo/bar'' abQuery
     = Inr (emptyURL\<lparr>Path := ''/foo/bar'', RawQuery := ''a=1&b=2''\<rparr>)
   \<and> mset (queryPairs ''a=1&b=2'') = mset (map canonicalPair abQuery)"
proof -
  let ?u = "emptyURL\<lparr>Path := ''/foo/bar'', RawQuery := ''a=1&b=2''\<rparr>"
  have 1: "CHR ''?'' \<notin> set ''/foo/bar''" "CHR ''#'' \<notin> set ''/foo/bar''" by simp_all
  have 2: "buildURL rejectAuthority ''/foo/bar'' abQuery = Inr ?u"
    by (simp add: buildURL_def abQuery_def Parse_foo_bar_ab)
  have r: "RawQuery ?u = ''a=1&b=2''" by (simp add: emptyURL_def)
  have "queryPairs (RawQuery ?u) = map pair abQuery"
    using query_pairs [of "''/foo/bar''" abQuery rejectAuthority ?u] 1 noDelimiter_ab 2
    by blast
  then have 3: "queryPairs ''a=1&b=2'' = [''a=1'', ''b=2'']"
    by (simp add: r abQuery_def pair_def)
  have 4: "distinct (map fst abQuery)" by (simp add: abQuery_def)
  have 5: "rebuildURL ''/foo/bar'' abQuery = Inr ?u"
    by code_simp
  have "mset (queryPairs (RawQuery ?u)) = mset (map canonicalPair abQuery)"
    using query_pairs [where query = abQuery and path = "''/foo/bar''" and u' = ?u] 4 5
    by blast
  then have 6: "mset (queryPairs ''a=1&b=2'') = mset (map canonicalPair abQuery)"
    by (simp only: r)
  have 7: "noDelimiter ''a'' \<and> noDelimiter ''1'' \<and> noDelimiter ''b'' \<and> noDelimiter ''2''"
    using noDelimiter_ab by (simp add: abQuery_def)
  from 1 7 2 3 4 5 6 show ?thesis by blast
qed

section \<open>The two strategies compared\<close>




end
